theory Spec2Isabelle
  imports Main
begin

section \<open>Micro-bash: data model\<close>

text \<open>
  The parser, the two validators, the executor and the supervisor of \<^verbatim>\<open>microbash.c\<close>.
  A C string is a \<^typ>\<open>string\<close> (without the terminating NUL); a \<^verbatim>\<open>char *\<close> that may be
  null is a \<^typ>\<open>string option\<close>. Counters and indices are \<^typ>\<open>nat\<close>: no counter of the
  program is ever decremented below zero, and overflow of \<^verbatim>\<open>int\<close> would need more than
  \<open>2^31\<close> tokens on one line. Allocation is taken to succeed (\<^verbatim>\<open>my_malloc\<close>,
  \<^verbatim>\<open>my_realloc\<close> and \<^verbatim>\<open>my_strdup\<close> leave the program otherwise), and releasing memory
  (\<^verbatim>\<open>free_command\<close>, \<^verbatim>\<open>free_line\<close>) has no counterpart here; neither has the read loop of
  \<^verbatim>\<open>main\<close>, which hands each line to \<^verbatim>\<open>execute\<close>.
\<close>

datatype check_t = CHECK_OK | CHECK_FAILED

definition CD :: string where
  "CD = ''cd''"

definition NO_REDIR :: int where
  "NO_REDIR = - 1"

text \<open>
  One cell of the \<^verbatim>\<open>char **args\<close> array: the null pointer, a pointer to a duplicated
  string, or whatever \<^verbatim>\<open>realloc\<close> left in a cell that was never written.
\<close>

datatype ptr = Null | Str string | Junk

record command_t =
  n_args :: nat
  args :: "ptr list"
  out_pathname :: "string option"
  in_pathname :: "string option"

record line_t =
  n_commands :: nat
  commands :: "command_t list"

text \<open>Reading an array cell: \<open>None\<close> is a read outside the allocated block.\<close>

definition nth_opt :: "'a list \<Rightarrow> nat \<Rightarrow> 'a option" where
  "nth_opt xs i = (if i < length xs then Some (xs ! i) else None)"

text \<open>
  Reading \<^verbatim>\<open>args[i]\<close> and using it as a C string: \<open>None\<close> when the cell is outside the
  block, null or uninitialised (undefined behaviour in C).
\<close>

definition str_at :: "ptr list \<Rightarrow> nat \<Rightarrow> string option" where
  "str_at a i = (case nth_opt a i of Some (Str s) \<Rightarrow> Some s | _ \<Rightarrow> None)"

text \<open>
  The vector \<^verbatim>\<open>execvp\<close> reads: the strings up to the first null cell; \<open>None\<close> when an
  uninitialised cell or the end of the block comes first.
\<close>

fun argv_of :: "ptr list \<Rightarrow> string list option" where
  "argv_of [] = None"
| "argv_of (Null # _) = Some []"
| "argv_of (Junk # _) = None"
| "argv_of (Str s # a) = (case argv_of a of None \<Rightarrow> None | Some v \<Rightarrow> Some (s # v))"

section \<open>Tokenizer\<close>

text \<open>
  \<^verbatim>\<open>strtok_r\<close>, as a function of the delimiters and of the position where the scan
  resumes (the string itself on the first call, \<^verbatim>\<open>*saveptr\<close> afterwards): it skips
  leading delimiters, returns \<open>None\<close> (the null pointer) at the end of the string, and
  otherwise the token together with the new \<^verbatim>\<open>*saveptr\<close>, one character past the
  delimiter that ended the token.
\<close>

definition strtok_r :: "string \<Rightarrow> string \<Rightarrow> (string \<times> string) option" where
  "strtok_r delim s =
     (let s1 = dropWhile (\<lambda>c. c \<in> set delim) s in
      if s1 = [] then None
      else let tok = takeWhile (\<lambda>c. c \<notin> set delim) s1;
               end = dropWhile (\<lambda>c. c \<notin> set delim) s1
           in Some (tok, if end = [] then [] else tl end))"

definition BLANKS :: string where
  "BLANKS = [CHR '' '', CHR 0x09]"

definition PIPE :: string where
  "PIPE = ''|''"

text \<open>\<^verbatim>\<open>*tmp\<close>: the first character of a C string, NUL for the empty string.\<close>

definition first_char :: "string \<Rightarrow> char" where
  "first_char s = (case s of [] \<Rightarrow> CHR 0x00 | c # _ \<Rightarrow> c)"

section \<open>Parser\<close>

text \<open>
  \<^verbatim>\<open>my_realloc(result->args, n * sizeof(char *))\<close>: the first cells are kept, the new
  ones hold anything.
\<close>

definition my_realloc :: "ptr list \<Rightarrow> nat \<Rightarrow> ptr list" where
  "my_realloc a n = take n a @ replicate (n - length a) Junk"

definition empty_command :: command_t where
  "empty_command = \<lparr>n_args = 0, args = [], out_pathname = None, in_pathname = None\<rparr>"

text \<open>
  The body of the \<^verbatim>\<open>while (tmp)\<close> loop of \<^verbatim>\<open>parse_cmd\<close> for one token: \<open>Inl\<close> is the
  message printed before \<^verbatim>\<open>goto fail\<close>, \<open>Inr\<close> the updated command. The environment
  lookup \<^verbatim>\<open>getenv\<close> is a parameter.
\<close>

definition parse_token ::
  "(string \<Rightarrow> string option) \<Rightarrow> command_t \<Rightarrow> string \<Rightarrow> string + command_t" where
  "parse_token getenv result0 tmp =
     (let result = result0\<lparr>args := my_realloc (args result0) (n_args result0 + 2)\<rparr> in
      if first_char tmp = CHR ''<'' then
        (if in_pathname result \<noteq> None then
           Inl ''Parsing error: cannot have more than one input redirection\<newline>''
         else if tl tmp = [] then
           Inl ''Parsing error: no path specified for input redirection\<newline>''
         else Inr (result\<lparr>in_pathname := Some (tl tmp)\<rparr>))
      else if first_char tmp = CHR ''>'' then
        (if out_pathname result \<noteq> None then
           Inl ''Parsing error: cannot have more than one output redirection\<newline>''
         else if tl tmp = [] then
           Inl ''Parsing error: no path specified for output redirection\<newline>''
         else Inr (result\<lparr>out_pathname := Some (tl tmp)\<rparr>))
      else
        (let tmp' = (if first_char tmp = CHR ''$''
                     then (case getenv (tl tmp) of None \<Rightarrow> [] | Some v \<Rightarrow> v)
                     else tmp)
         in Inr (result\<lparr>args := (args result)[n_args result := Str tmp',
                                                Suc (n_args result) := Null],
                         n_args := Suc (n_args result)\<rparr>)))"

lemma strtok_r_shorter:
  assumes "strtok_r delim s = Some (tok, rest)"
  shows "length rest < length s"
proof -
  define s1 where "s1 = dropWhile (\<lambda>c. c \<in> set delim) s"
  define e where "e = dropWhile (\<lambda>c. c \<notin> set delim) s1"
  have eq: "strtok_r delim s = (if s1 = [] then None
      else Some (takeWhile (\<lambda>c. c \<notin> set delim) s1, if e = [] then [] else tl e))"
    unfolding strtok_r_def s1_def e_def Let_def by (rule refl)
  from assms eq have ne: "s1 \<noteq> []"
    by (cases "s1 = []") simp_all
  with assms eq have rest: "rest = (if e = [] then [] else tl e)"
    by simp
  have l1: "length e \<le> length s1" unfolding e_def by (rule length_dropWhile_le)
  have l2: "length s1 \<le> length s" unfolding s1_def by (rule length_dropWhile_le)
  have "length rest < length s1"
  proof (cases "e = []")
    case True
    with rest ne show ?thesis by simp
  next
    case False
    then obtain x xs where "e = x # xs" by (cases e) auto
    with rest l1 show ?thesis by simp
  qed
  with l2 show ?thesis by simp
qed

text \<open>What is left to scan: the measure under which both parsing loops terminate.\<close>

definition resume_size :: "(string \<times> string) option \<Rightarrow> nat" where
  "resume_size t = (case t of None \<Rightarrow> 0 | Some (tok, rest) \<Rightarrow> Suc (length rest))"

lemma resume_size_strtok_r:
  "resume_size (strtok_r delim s) < resume_size (Some (tok, s))"
proof (cases "strtok_r delim s")
  case None
  then show ?thesis by (simp add: resume_size_def)
next
  case (Some p)
  obtain t r where p: "p = (t, r)" by (cases p)
  with Some have "length r < length s" by (simp add: strtok_r_shorter)
  with Some p show ?thesis by (simp add: resume_size_def)
qed

text \<open>
  The loop of \<^verbatim>\<open>parse_cmd\<close>: the third argument is \<^verbatim>\<open>tmp\<close> with \<^verbatim>\<open>saveptr\<close>, \<open>None\<close>
  when \<^verbatim>\<open>strtok_r\<close> returned the null pointer. The result is what was written to
  \<^verbatim>\<open>stderr\<close> and the returned pointer (\<open>None\<close> for 0).
\<close>

function parse_cmd_loop ::
  "(string \<Rightarrow> string option) \<Rightarrow> command_t \<Rightarrow> (string \<times> string) option
     \<Rightarrow> string list \<times> command_t option" where
  "parse_cmd_loop getenv result None =
     (if n_args result \<noteq> 0 then ([], Some result)
      else ([''Parsing error: empty command\<newline>''], None))"
| "parse_cmd_loop getenv result (Some (tmp, saveptr)) =
     (case parse_token getenv result tmp of
        Inl msg \<Rightarrow> ([msg], None)
      | Inr result' \<Rightarrow> parse_cmd_loop getenv result' (strtok_r BLANKS saveptr))"
  by pat_completeness auto
termination
  by (relation "measure (\<lambda>(g, r, t). resume_size t)")
     (simp_all add: resume_size_strtok_r)

definition parse_cmd :: "(string \<Rightarrow> string option) \<Rightarrow> string \<Rightarrow> string list \<times> command_t option" where
  "parse_cmd getenv cmdstr = parse_cmd_loop getenv empty_command (strtok_r BLANKS cmdstr)"

text \<open>
  The loop of \<^verbatim>\<open>parse_line\<close>. The array of commands is reallocated to
  \<^verbatim>\<open>n_commands + 1\<close> cells and the new command stored in the last one.
\<close>

function parse_line_loop ::
  "(string \<Rightarrow> string option) \<Rightarrow> line_t \<Rightarrow> (string \<times> string) option
     \<Rightarrow> string list \<times> line_t option" where
  "parse_line_loop getenv result None = ([], Some result)"
| "parse_line_loop getenv result (Some (cmd, saveptr)) =
     (case parse_cmd getenv cmd of
        (err, None) \<Rightarrow> (err, None)
      | (err, Some c) \<Rightarrow>
          (let result' = result\<lparr>commands := take (n_commands result) (commands result) @ [c],
                                n_commands := Suc (n_commands result)\<rparr>;
               (err', r) = parse_line_loop getenv result' (strtok_r PIPE saveptr)
           in (err @ err', r)))"
  by pat_completeness auto
termination
  by (relation "measure (\<lambda>(g, r, t). resume_size t)")
     (simp_all add: resume_size_strtok_r)

definition parse_line :: "(string \<Rightarrow> string option) \<Rightarrow> string \<Rightarrow> string list \<times> line_t option" where
  "parse_line getenv line =
     (case strtok_r PIPE line of
        None \<Rightarrow> ([], None)
      | Some (cmd, saveptr) \<Rightarrow>
          parse_line_loop getenv \<lparr>n_commands = 0, commands = []\<rparr> (Some (cmd, saveptr)))"

section \<open>Validator\<close>

text \<open>
  The validators print to \<^verbatim>\<open>stderr\<close> and return a \<^typ>\<open>check_t\<close>: the model returns the
  lines printed and the result, or \<open>None\<close> when the C code would read outside an array or
  through a null or uninitialised pointer.
\<close>

function check_redirections_loop :: "line_t \<Rightarrow> nat \<Rightarrow> (string list \<times> check_t) option" where
  "check_redirections_loop l i =
     (if i < n_commands l then
        (case nth_opt (commands l) i of
           None \<Rightarrow> None
         | Some c \<Rightarrow>
             if in_pathname c \<noteq> None \<and> i \<noteq> 0 then
               Some ([''Parsing error: cannot have input-redirection except in the first command\<newline>''],
                     CHECK_FAILED)
             else if out_pathname c \<noteq> None \<and> i \<noteq> n_commands l - 1 then
               Some ([''Parsing error: cannot have output-redirection except in the last command\<newline>''],
                     CHECK_FAILED)
             else check_redirections_loop l (i + 1))
      else Some ([], CHECK_OK))"
  by pat_completeness auto
termination
  by (relation "measure (\<lambda>(l, i). n_commands l - i)") simp_all

declare check_redirections_loop.simps [simp del]

definition check_redirections :: "line_t \<Rightarrow> (string list \<times> check_t) option" where
  "check_redirections l = check_redirections_loop l 0"

text \<open>
  The first loop of \<^verbatim>\<open>check_cd\<close>, from index \<open>i\<close>: \<open>Some True\<close> when it finds a command
  named \<^verbatim>\<open>cd\<close> (the function then fails), \<open>Some False\<close> when it runs to the end.
\<close>

function cd_in_pipe_loop :: "line_t \<Rightarrow> nat \<Rightarrow> bool option" where
  "cd_in_pipe_loop l i =
     (if i < n_commands l then
        (case nth_opt (commands l) i of
           None \<Rightarrow> None
         | Some c \<Rightarrow>
             (case str_at (args c) 0 of
                None \<Rightarrow> None
              | Some a0 \<Rightarrow> if a0 = CD then Some True else cd_in_pipe_loop l (i + 1)))
      else Some False)"
  by pat_completeness auto
termination
  by (relation "measure (\<lambda>(l, i). n_commands l - i)") simp_all

declare cd_in_pipe_loop.simps [simp del]

definition check_cd :: "line_t \<Rightarrow> (string list \<times> check_t) option" where
  "check_cd l =
     (case cd_in_pipe_loop l 1 of
        None \<Rightarrow> None
      | Some True \<Rightarrow> Some ([''Parsing error: cannot have CD in pipe\<newline>''], CHECK_FAILED)
      | Some False \<Rightarrow>
          (case nth_opt (commands l) 0 of
             None \<Rightarrow> None
           | Some c0 \<Rightarrow>
               (case str_at (args c0) 0 of
                  None \<Rightarrow> None
                | Some a0 \<Rightarrow>
                    if a0 \<noteq> CD then Some ([], CHECK_OK)
                    else if n_commands l > 1 then
                      Some ([''Parsing error: cannot have more that one command with CD\<newline>''],
                            CHECK_FAILED)
                    else if in_pathname c0 \<noteq> None then
                      Some ([''Parsing error: cannot have input-redirection with CD\<newline>''],
                            CHECK_FAILED)
                    else if out_pathname c0 \<noteq> None then
                      Some ([''Parsing error: cannot have output-redirection with CD\<newline>''],
                            CHECK_FAILED)
                    else if n_args c0 \<noteq> 2 then
                      Some ([''Parsing error: cannot have more than one argument with CD\<newline>''],
                            CHECK_FAILED)
                    else Some ([], CHECK_OK))))"

section \<open>Operating system\<close>

text \<open>
  What the process does is recorded as a trace of events; what the system answers is a
  parameter, the \<open>world\<close>, each answer a function of the trace so far and of the call's
  arguments. Besides the trace, the state holds the working directory and the
  process's children that have not been waited for.
\<close>

datatype wstatus = Exited nat | Signaled nat | Other_status

datatype event =
    Stderr string
  | Stdout string
  | Perror string
  | Sys_open string bool int
  | Sys_pipe int int int
  | Sys_fcntl int int
  | Sys_fork int
  | Sys_dup2 int int int
  | Sys_close int int
  | Sys_execvp string "string list"
  | Sys_chdir string int
  | Sys_waitpid int

record os_state =
  trace :: "event list"
  cwd :: string
  children :: "int list"

record world =
  w_getenv :: "string \<Rightarrow> string option"
  w_open :: "event list \<Rightarrow> string \<Rightarrow> bool \<Rightarrow> int"
  w_pipe :: "event list \<Rightarrow> int \<times> int \<times> int"
  w_fcntl :: "event list \<Rightarrow> int \<Rightarrow> int"
  w_fork :: "event list \<Rightarrow> int"
  w_dup2 :: "event list \<Rightarrow> int \<Rightarrow> int \<Rightarrow> int"
  w_close :: "event list \<Rightarrow> int \<Rightarrow> int"
  w_execvp :: "event list \<Rightarrow> string \<Rightarrow> string list \<Rightarrow> bool"
  w_chdir :: "event list \<Rightarrow> string \<Rightarrow> string \<Rightarrow> string option"
  w_status :: "int \<Rightarrow> wstatus"
  w_strsignal :: "nat \<Rightarrow> string"

text \<open>
  How a call of the program ends: it returns, the process exits with
  \<^verbatim>\<open>EXIT_FAILURE\<close> (\<^verbatim>\<open>fatal\<close>, \<^verbatim>\<open>fatal_errno\<close>), \<^verbatim>\<open>execvp\<close> replaces the process
  image, an \<^verbatim>\<open>assert\<close> fails, or the behaviour is undefined.
\<close>

datatype outcome =
    Returned os_state
  | Exit_failure os_state
  | Exec_replaced os_state
  | Assert_failed os_state
  | Undefined_behaviour

definition log :: "event \<Rightarrow> os_state \<Rightarrow> os_state" where
  "log e s = s\<lparr>trace := trace s @ [e]\<rparr>"

definition perror :: "string \<Rightarrow> os_state \<Rightarrow> os_state" where
  "perror msg s = log (Perror msg) s"

definition fatal_errno :: "string \<Rightarrow> os_state \<Rightarrow> outcome" where
  "fatal_errno msg s = Exit_failure (perror msg s)"

definition print_stderr :: "string list \<Rightarrow> os_state \<Rightarrow> os_state" where
  "print_stderr msgs s = s\<lparr>trace := trace s @ map Stderr msgs\<rparr>"

definition sys_open :: "world \<Rightarrow> string \<Rightarrow> bool \<Rightarrow> os_state \<Rightarrow> int \<times> os_state" where
  "sys_open w path wr s =
     (let fd = w_open w (trace s) path wr in (fd, log (Sys_open path wr fd) s))"

definition sys_pipe :: "world \<Rightarrow> os_state \<Rightarrow> int \<times> int \<times> int \<times> os_state" where
  "sys_pipe w s =
     (case w_pipe w (trace s) of (r, fd0, fd1) \<Rightarrow> (r, fd0, fd1, log (Sys_pipe r fd0 fd1) s))"

definition sys_fcntl :: "world \<Rightarrow> int \<Rightarrow> os_state \<Rightarrow> int \<times> os_state" where
  "sys_fcntl w fd s = (let r = w_fcntl w (trace s) fd in (r, log (Sys_fcntl fd r) s))"

definition sys_dup2 :: "world \<Rightarrow> int \<Rightarrow> int \<Rightarrow> os_state \<Rightarrow> int \<times> os_state" where
  "sys_dup2 w from_fd to_fd s =
     (let r = w_dup2 w (trace s) from_fd to_fd in (r, log (Sys_dup2 from_fd to_fd r) s))"

definition sys_close :: "world \<Rightarrow> int \<Rightarrow> os_state \<Rightarrow> int \<times> os_state" where
  "sys_close w fd s = (let r = w_close w (trace s) fd in (r, log (Sys_close fd r) s))"

text \<open>
  \<^verbatim>\<open>fork\<close>: in the parent the new child joins the children; in the child (answer 0) there
  are no children yet.
\<close>

definition sys_fork :: "world \<Rightarrow> os_state \<Rightarrow> int \<times> os_state" where
  "sys_fork w s =
     (let pid = w_fork w (trace s);
          s1 = log (Sys_fork pid) s
      in (pid, if pid > 0 then s1\<lparr>children := children s1 @ [pid]\<rparr>
               else if pid = 0 then s1\<lparr>children := []\<rparr>
               else s1))"

text \<open>\<^verbatim>\<open>execvp\<close> comes back only when it fails: \<open>True\<close> is the image replaced.\<close>

definition sys_execvp :: "world \<Rightarrow> string \<Rightarrow> string list \<Rightarrow> os_state \<Rightarrow> bool \<times> os_state" where
  "sys_execvp w file argv s = (w_execvp w (trace s) file argv, log (Sys_execvp file argv) s)"

text \<open>\<^verbatim>\<open>chdir\<close>: the working directory changes only when the call succeeds.\<close>

definition sys_chdir :: "world \<Rightarrow> string \<Rightarrow> os_state \<Rightarrow> int \<times> os_state" where
  "sys_chdir w path s =
     (case w_chdir w (trace s) (cwd s) path of
        None \<Rightarrow> (- 1, log (Sys_chdir path (- 1)) s)
      | Some d \<Rightarrow> (0, (log (Sys_chdir path 0) s)\<lparr>cwd := d\<rparr>))"

text \<open>
  \<^verbatim>\<open>waitpid(-1, &status, 0)\<close>: with no child left it fails (\<^verbatim>\<open>ECHILD\<close>) and leaves the
  status word alone (the loop does not read it then); otherwise it reports the
  termination of a child, here the oldest one, each child being taken to terminate.
\<close>

definition sys_waitpid :: "world \<Rightarrow> os_state \<Rightarrow> int \<times> wstatus \<times> os_state" where
  "sys_waitpid w s =
     (case children s of
        [] \<Rightarrow> (- 1, Other_status, log (Sys_waitpid (- 1)) s)
      | pid # rest \<Rightarrow> (pid, w_status w pid, (log (Sys_waitpid pid) s)\<lparr>children := rest\<rparr>))"

section \<open>Supervisor\<close>

text \<open>\<^verbatim>\<open>printf("%d", n)\<close> for a number that is not negative, and for any \<^verbatim>\<open>int\<close>.\<close>

definition digit :: "nat \<Rightarrow> char" where
  "digit n = ''0123456789'' ! n"

function show_nat :: "nat \<Rightarrow> string" where
  "show_nat n = (if n < 10 then [digit n] else show_nat (n div 10) @ [digit (n mod 10)])"
  by pat_completeness auto
termination
  by (relation "measure (\<lambda>n. n)") simp_all

declare show_nat.simps [simp del]

definition show_int :: "int \<Rightarrow> string" where
  "show_int i = (if i < 0 then CHR ''-'' # show_nat (nat (- i)) else show_nat (nat i))"

text \<open>
  The body of the loop of \<^verbatim>\<open>wait_for_children\<close>: \<open>Exited\<close> is \<^verbatim>\<open>WIFEXITED\<close> with its
  \<^verbatim>\<open>WEXITSTATUS\<close>, \<open>Signaled\<close> is \<^verbatim>\<open>WIFSIGNALED\<close> with its \<^verbatim>\<open>WTERMSIG\<close>.
\<close>

definition report_child :: "world \<Rightarrow> int \<Rightarrow> wstatus \<Rightarrow> os_state \<Rightarrow> os_state" where
  "report_child w pid status s =
     (case status of
        Exited exit_status \<Rightarrow>
          if exit_status \<noteq> 0 then
            log (Stdout (''Child with PID '' @ show_int pid @ '' exited with status ''
                         @ show_nat exit_status @ ''.\<newline>'')) s
          else s
      | Signaled signal_num \<Rightarrow>
          log (Stdout (''Child with PID '' @ show_int pid @ '' was killed by signal ''
                       @ show_nat signal_num @ '' ('' @ w_strsignal w signal_num
                       @ '').\<newline>'')) s
      | Other_status \<Rightarrow> s)"

lemma children_log [simp]: "children (log e s) = children s"
  by (simp add: log_def)

lemma children_report_child [simp]: "children (report_child w pid status s) = children s"
  by (cases status) (simp_all add: report_child_def)

lemma sys_waitpid_children:
  assumes "sys_waitpid w s = (pid, status, s1)" and "0 < pid"
  shows "length (children s1) < length (children s)"
proof (cases "children s")
  case Nil
  with assms show ?thesis by (simp add: sys_waitpid_def)
next
  case (Cons p ps)
  with assms show ?thesis by (auto simp: sys_waitpid_def)
qed

function wait_for_children :: "world \<Rightarrow> os_state \<Rightarrow> os_state" where
  "wait_for_children w s =
     (case sys_waitpid w s of
        (pid, status, s1) \<Rightarrow>
          if pid > 0 then wait_for_children w (report_child w pid status s1) else s1)"
  by pat_completeness auto
termination
proof (relation "measure (\<lambda>(w, s). length (children s))")
  show "wf (measure (\<lambda>(w, s). length (children s)))" by simp
next
  fix w s x y xa ya
  assume "(x, y) = sys_waitpid w s" and "(xa, ya) = y" and "0 < x"
  then have "sys_waitpid w s = (x, xa, ya)" by simp
  from sys_waitpid_children [OF this \<open>0 < x\<close>]
  show "((w, report_child w x xa ya), (w, s)) \<in> measure (\<lambda>(w, s). length (children s))"
    by simp
qed

declare wait_for_children.simps [simp del]

section \<open>Executor\<close>

definition STDIN_FILENO :: int where
  "STDIN_FILENO = 0"

definition STDOUT_FILENO :: int where
  "STDOUT_FILENO = 1"

text \<open>In the functions below \<open>Inl\<close> is the way the process or the caller stops.\<close>

definition redirect :: "world \<Rightarrow> int \<Rightarrow> int \<Rightarrow> os_state \<Rightarrow> outcome + os_state" where
  "redirect w from_fd to_fd s =
     (if from_fd \<noteq> NO_REDIR \<and> from_fd \<noteq> to_fd then
        (case sys_dup2 w from_fd to_fd s of
           (r, s1) \<Rightarrow>
             if r = - 1 then Inl (fatal_errno ''dup2 failed'' s1)
             else (case sys_close w from_fd s1 of
                     (r', s2) \<Rightarrow>
                       if r' = - 1 then Inl (fatal_errno ''close failed'' s2) else Inr s2))
      else Inr s)"

text \<open>
  \<^verbatim>\<open>run_child\<close>, for the parent (\<open>Inr\<close>: it goes on) and for the child (\<^verbatim>\<open>fork\<close> answers 0),
  which never comes back from it.
\<close>

definition run_child :: "world \<Rightarrow> command_t \<Rightarrow> int \<Rightarrow> int \<Rightarrow> os_state \<Rightarrow> outcome + os_state" where
  "run_child w c c_stdin c_stdout s =
     (case sys_fork w s of
        (pid, s1) \<Rightarrow>
          if pid < 0 then Inl (fatal_errno ''fork failed on run_child'' s1)
          else if pid = 0 then
            (case redirect w c_stdin STDIN_FILENO s1 of
               Inl out \<Rightarrow> Inl out
             | Inr s2 \<Rightarrow>
                 (case redirect w c_stdout STDOUT_FILENO s2 of
                    Inl out \<Rightarrow> Inl out
                  | Inr s3 \<Rightarrow>
                      (case str_at (args c) 0 of
                         None \<Rightarrow> Inl Undefined_behaviour
                       | Some file \<Rightarrow>
                           (case argv_of (args c) of
                              None \<Rightarrow> Inl Undefined_behaviour
                            | Some argv \<Rightarrow>
                                (case sys_execvp w file argv s3 of
                                   (ok, s4) \<Rightarrow>
                                     if ok then Inl (Exec_replaced s4)
                                     else Inl (fatal_errno file s4))))))
          else Inr s1)"

definition change_current_directory :: "world \<Rightarrow> string \<Rightarrow> os_state \<Rightarrow> os_state" where
  "change_current_directory w newdir s =
     (case sys_chdir w newdir s of
        (r, s1) \<Rightarrow> if r = - 1 then perror ''error in change directory'' s1 else s1)"

definition close_if_needed :: "world \<Rightarrow> int \<Rightarrow> os_state \<Rightarrow> os_state" where
  "close_if_needed w fd s =
     (if fd = NO_REDIR then s
      else (case sys_close w fd s of
              (r, s1) \<Rightarrow> if r \<noteq> 0 then perror ''close in close_if_needed'' s1 else s1))"

text \<open>
  The two blocks of the loop of \<^verbatim>\<open>execute_line\<close> that set up \<^verbatim>\<open>curr_stdin\<close> and
  \<^verbatim>\<open>curr_stdout\<close> (with \<^verbatim>\<open>next_stdin\<close>) for the command at index \<open>a\<close>. A file that
  cannot be opened makes \<^verbatim>\<open>execute_line\<close> return at once.
\<close>

definition open_stdin ::
  "world \<Rightarrow> nat \<Rightarrow> command_t \<Rightarrow> int \<Rightarrow> os_state \<Rightarrow> outcome + int \<times> os_state" where
  "open_stdin w a c next_stdin s =
     (case in_pathname c of
        None \<Rightarrow> Inr (next_stdin, s)
      | Some path \<Rightarrow>
          if a \<noteq> 0 then Inl (Assert_failed s)
          else (case sys_open w path False s of
                  (curr_stdin, s1) \<Rightarrow>
                    if curr_stdin < 0 then Inl (Returned (perror path s1))
                    else Inr (curr_stdin, s1)))"

definition open_stdout ::
  "world \<Rightarrow> line_t \<Rightarrow> nat \<Rightarrow> command_t \<Rightarrow> int \<Rightarrow> os_state
     \<Rightarrow> outcome + (int \<times> int) \<times> os_state" where
  "open_stdout w l a c next_stdin s =
     (case out_pathname c of
        Some path \<Rightarrow>
          if a \<noteq> n_commands l - 1 then Inl (Assert_failed s)
          else (case sys_open w path True s of
                  (curr_stdout, s1) \<Rightarrow>
                    if curr_stdout < 0 then Inl (Returned (perror path s1))
                    else Inr ((curr_stdout, next_stdin), s1))
      | None \<Rightarrow>
          if a \<noteq> n_commands l - 1 then
            (case sys_pipe w s of
               (r, fd0, fd1, s1) \<Rightarrow>
                 if r = - 1 then Inl (fatal_errno ''pipe'' s1)
                 else (case sys_fcntl w fd0 s1 of
                         (r0, s2) \<Rightarrow>
                           if r0 = - 1 then Inl (fatal_errno ''fcntl read-end'' s2)
                           else (case sys_fcntl w fd1 s2 of
                                   (r1, s3) \<Rightarrow>
                                     if r1 = - 1 then Inl (fatal_errno ''fcntl write-end'' s3)
                                     else Inr ((fd1, fd0), s3))))
          else Inr ((NO_REDIR, next_stdin), s))"

text \<open>
  The \<^verbatim>\<open>for\<close> loop of \<^verbatim>\<open>execute_line\<close> from index \<open>a\<close>: \<open>Inr\<close> when it runs to the end,
  \<open>Inl\<close> when the function or the process stops inside it.
\<close>

function execute_line_loop ::
  "world \<Rightarrow> line_t \<Rightarrow> nat \<Rightarrow> int \<Rightarrow> os_state \<Rightarrow> outcome + os_state" where
  "execute_line_loop w l a next_stdin s =
     (if a < n_commands l then
        (case nth_opt (commands l) a of
           None \<Rightarrow> Inl Undefined_behaviour
         | Some c \<Rightarrow>
             (case open_stdin w a c next_stdin s of
                Inl out \<Rightarrow> Inl out
              | Inr (curr_stdin, s1) \<Rightarrow>
                  (case open_stdout w l a c next_stdin s1 of
                     Inl out \<Rightarrow> Inl out
                   | Inr ((curr_stdout, next_stdin'), s2) \<Rightarrow>
                       (case run_child w c curr_stdin curr_stdout s2 of
                          Inl out \<Rightarrow> Inl out
                        | Inr s3 \<Rightarrow>
                            execute_line_loop w l (a + 1) next_stdin'
                              (close_if_needed w curr_stdout
                                 (close_if_needed w curr_stdin s3))))))
      else Inr s)"
  by pat_completeness auto
termination
  by (relation "measure (\<lambda>(w, l, a, n, s). n_commands l - a)") simp_all

declare execute_line_loop.simps [simp del]

definition execute_line :: "world \<Rightarrow> line_t \<Rightarrow> os_state \<Rightarrow> outcome" where
  "execute_line w l s =
     (case nth_opt (commands l) 0 of
        None \<Rightarrow> Undefined_behaviour
      | Some c0 \<Rightarrow>
          (case str_at (args c0) 0 of
             None \<Rightarrow> Undefined_behaviour
           | Some a0 \<Rightarrow>
               if CD = a0 then
                 (if \<not> (n_commands l = 1 \<and> n_args c0 = 2) then Assert_failed s
                  else (case str_at (args c0) 1 of
                          None \<Rightarrow> Undefined_behaviour
                        | Some newdir \<Rightarrow> Returned (change_current_directory w newdir s)))
               else (case execute_line_loop w l 0 NO_REDIR s of
                       Inl out \<Rightarrow> out
                     | Inr s1 \<Rightarrow> Returned (wait_for_children w s1))))"

definition execute :: "world \<Rightarrow> string \<Rightarrow> os_state \<Rightarrow> outcome" where
  "execute w line s =
     (case parse_line (w_getenv w) line of
        (errs, None) \<Rightarrow> Returned (print_stderr errs s)
      | (errs, Some l) \<Rightarrow>
          (let s0 = print_stderr errs s in
           case check_redirections l of
             None \<Rightarrow> Undefined_behaviour
           | Some (e1, r1) \<Rightarrow>
               (let s1 = print_stderr e1 s0 in
                if r1 = CHECK_OK then
                  (case check_cd l of
                     None \<Rightarrow> Undefined_behaviour
                   | Some (e2, r2) \<Rightarrow>
                       (let s2 = print_stderr e2 s1 in
                        if r2 = CHECK_OK then execute_line w l s2 else Returned s2))
                else Returned s1)))"

section \<open>Well-formed commands and lines\<close>

text \<open>
  The shape \<^verbatim>\<open>parse_cmd\<close> maintains: the first \<^verbatim>\<open>n_args\<close> cells of \<^verbatim>\<open>args\<close> point to
  strings and, once there is an argument, the cell at index \<^verbatim>\<open>n_args\<close> is null (the
  sanity check of \<^verbatim>\<open>free_command\<close>).
\<close>

definition is_Str :: "ptr \<Rightarrow> bool" where
  "is_Str p = (case p of Str s \<Rightarrow> True | _ \<Rightarrow> False)"

definition args_terminated :: "command_t \<Rightarrow> bool" where
  "args_terminated c =
     ((n_args c = 0 \<or> nth_opt (args c) (n_args c) = Some Null)
      \<and> n_args c \<le> length (args c)
      \<and> list_all is_Str (take (n_args c) (args c)))"

definition command_ok :: "command_t \<Rightarrow> bool" where
  "command_ok c = (1 \<le> n_args c \<and> args_terminated c)"

definition line_ok :: "line_t \<Rightarrow> bool" where
  "line_ok l = (length (commands l) = n_commands l \<and> list_all command_ok (commands l))"

definition str_of :: "ptr \<Rightarrow> string" where
  "str_of p = (case p of Str s \<Rightarrow> s | _ \<Rightarrow> [])"


section \<open>A sample world\<close>

text \<open>
  A world in which every call succeeds and every child exits with status 0, and the
  state of a process that has done nothing yet: the concrete inputs of the examples.
\<close>

definition calm_world :: world where
  "calm_world =
     \<lparr>w_getenv = (\<lambda>name. None),
      w_open = (\<lambda>h path wr. 3),
      w_pipe = (\<lambda>h. (0, 3, 4)),
      w_fcntl = (\<lambda>h fd. 0),
      w_fork = (\<lambda>h. 100 + int (length h)),
      w_dup2 = (\<lambda>h from_fd to_fd. to_fd),
      w_close = (\<lambda>h fd. 0),
      w_execvp = (\<lambda>h prog argv. True),
      w_chdir = (\<lambda>h dir path. Some path),
      w_status = (\<lambda>pid. Exited 0),
      w_strsignal = (\<lambda>n. ''Killed'')\<rparr>"

definition init_state :: os_state where
  "init_state = \<lparr>trace = [], cwd = ''/'', children = []\<rparr>"

text \<open>Two environments: one with no variable set, one where \<^verbatim>\<open>X\<close> is \<^verbatim>\<open>5\<close>.\<close>

definition x5_env :: "string \<Rightarrow> string option" where
  "x5_env name = (if name = ''X'' then Some ''5'' else None)"

definition unset_env :: "string \<Rightarrow> string option" where
  "unset_env name = None"


section \<open>The supervisor's reports, as the specification words them\<close>

text \<open>
  The lines the supervisor owes for one terminated child: one line for an exit status
  other than zero, one line for a signal, nothing for exit status zero. Then the events
  of a whole supervision pass over the given children: each child is waited for and
  reported, and a last \<^verbatim>\<open>waitpid\<close> finds no child left.
\<close>

definition termination_report :: "world \<Rightarrow> int \<Rightarrow> wstatus \<Rightarrow> string list" where
  "termination_report w pid status =
     (case status of
        Exited st \<Rightarrow>
          if st = 0 then []
          else [''Child with PID '' @ show_int pid @ '' exited with status '' @ show_nat st
                @ ''.\<newline>'']
      | Signaled n \<Rightarrow>
          [''Child with PID '' @ show_int pid @ '' was killed by signal '' @ show_nat n
           @ '' ('' @ w_strsignal w n @ '').\<newline>'']
      | Other_status \<Rightarrow> [])"

definition supervised :: "world \<Rightarrow> int list \<Rightarrow> event list" where
  "supervised w pids =
     concat (map (\<lambda>p. Sys_waitpid p # map Stdout (termination_report w p (w_status w p))) pids)
     @ [Sys_waitpid (- 1)]"

text \<open>Three children to wait for, in a world where two of them end badly.\<close>

definition three_children :: os_state where
  "three_children = \<lparr>trace = [], cwd = ''/'', children = [4242, 4243, 4244]\<rparr>"

definition rough_world :: world where
  "rough_world =
     calm_world\<lparr>w_status := (\<lambda>pid. if pid = 4242 then Exited 3
                                    else if pid = 4243 then Signaled 9 else Exited 0)\<rparr>"


text \<open>
  A world where no directory can be entered, one where no file can be opened for
  writing, and the line \<^verbatim>\<open>cd /tmp\<close> as the parser returns it.
\<close>

definition locked_world :: world where
  "locked_world = calm_world\<lparr>w_chdir := (\<lambda>h dir path. None)\<rparr>"

definition cd_tmp_line :: line_t where
  "cd_tmp_line =
     \<lparr>n_commands = 1,
      commands = [\<lparr>n_args = 2, args = [Str ''cd'', Str ''/tmp'', Null],
                    out_pathname = None, in_pathname = None\<rparr>]\<rparr>"

definition readonly_world :: world where
  "readonly_world = calm_world\<lparr>w_open := (\<lambda>h path wr. if wr then - 1 else 3)\<rparr>"


section \<open>Misplaced redirections\<close>

text \<open>
  What the redirection check looks for at the command of index \<open>j\<close>: an input
  redirection in a command that is not the first, an output redirection in a command
  that is not the last; and its two messages.
\<close>

definition in_misplaced :: "line_t \<Rightarrow> nat \<Rightarrow> bool" where
  "in_misplaced l j = (in_pathname (commands l ! j) \<noteq> None \<and> j \<noteq> 0)"

definition out_misplaced :: "line_t \<Rightarrow> nat \<Rightarrow> bool" where
  "out_misplaced l j = (out_pathname (commands l ! j) \<noteq> None \<and> j \<noteq> n_commands l - 1)"

definition msg_in_redirection :: string where
  "msg_in_redirection =
     ''Parsing error: cannot have input-redirection except in the first command\<newline>''"

definition msg_out_redirection :: string where
  "msg_out_redirection =
     ''Parsing error: cannot have output-redirection except in the last command\<newline>''"

text \<open>The line \<^verbatim>\<open>a | b <y\<close> as the parser returns it.\<close>

definition two_inputs_line :: line_t where
  "two_inputs_line =
     \<lparr>n_commands = 2,
      commands = [\<lparr>n_args = 1, args = [Str ''a'', Null],
                    out_pathname = None, in_pathname = None\<rparr>,
                  \<lparr>n_args = 1, args = [Str ''b'', Null, Junk],
                    out_pathname = None, in_pathname = Some ''y''\<rparr>]\<rparr>"


section \<open>Commands named cd\<close>

text \<open>
  The command of index \<open>j\<close> is the built-in when its first argument is \<^verbatim>\<open>cd\<close>; the lines
  \<^verbatim>\<open>a | cd /tmp\<close> and \<^verbatim>\<open>cd a b\<close> as the parser returns them.
\<close>

definition is_cd :: "line_t \<Rightarrow> nat \<Rightarrow> bool" where
  "is_cd l j = (str_at (args (commands l ! j)) 0 = Some CD)"

definition a_cd_tmp_line :: line_t where
  "a_cd_tmp_line =
     \<lparr>n_commands = 2,
      commands = [\<lparr>n_args = 1, args = [Str ''a'', Null],
                    out_pathname = None, in_pathname = None\<rparr>,
                  \<lparr>n_args = 2, args = [Str ''cd'', Str ''/tmp'', Null],
                    out_pathname = None, in_pathname = None\<rparr>]\<rparr>"

definition cd_a_b_line :: line_t where
  "cd_a_b_line =
     \<lparr>n_commands = 1,
      commands = [\<lparr>n_args = 3, args = [Str ''cd'', Str ''a'', Str ''b'', Null],
                    out_pathname = None, in_pathname = None\<rparr>]\<rparr>"


section \<open>Segments and tokens of a line\<close>

text \<open>
  The segments of a line between delimiters \<open>d\<close>, empty ones included: a line with \<open>n\<close>
  delimiters has \<open>n + 1\<close> segments. A segment contains a token when one of its characters
  is not a blank.
\<close>

fun segments :: "char \<Rightarrow> string \<Rightarrow> string list" where
  "segments d [] = [[]]"
| "segments d (x # xs) =
     (if x = d then [] # segments d xs
      else (case segments d xs of [] \<Rightarrow> [[x]] | y # ys \<Rightarrow> (x # y) # ys))"

definition contains_token :: "string \<Rightarrow> bool" where
  "contains_token seg = (\<exists>c\<in>set seg. c \<notin> set BLANKS)"

text \<open>
  All the tokens \<^verbatim>\<open>strtok_r\<close> yields when called until it returns the null pointer,
  starting from the result of a first call.
\<close>

function toks_from :: "string \<Rightarrow> (string \<times> string) option \<Rightarrow> string list" where
  "toks_from delim None = []"
| "toks_from delim (Some (tok, saveptr)) = tok # toks_from delim (strtok_r delim saveptr)"
  by pat_completeness auto
termination
  by (relation "measure (\<lambda>(d, t). resume_size t)") (simp_all add: resume_size_strtok_r)

text \<open>The line \<^verbatim>\<open>a||b |c d\<close> as the parser returns it.\<close>

definition three_commands_line :: line_t where
  "three_commands_line =
     \<lparr>n_commands = 3,
      commands = [\<lparr>n_args = 1, args = [Str ''a'', Null],
                    out_pathname = None, in_pathname = None\<rparr>,
                  \<lparr>n_args = 1, args = [Str ''b'', Null],
                    out_pathname = None, in_pathname = None\<rparr>,
                  \<lparr>n_args = 2, args = [Str ''c'', Str ''d'', Null],
                    out_pathname = None, in_pathname = None\<rparr>]\<rparr>"


text \<open>The two commands \<^verbatim>\<open>a\<close> and \<^verbatim>\<open>b\<close> in one line.\<close>

definition a_b_line :: line_t where
  "a_b_line =
     \<lparr>n_commands = 2,
      commands = [\<lparr>n_args = 1, args = [Str ''a'', Null],
                    out_pathname = None, in_pathname = None\<rparr>,
                  \<lparr>n_args = 1, args = [Str ''b'', Null],
                    out_pathname = None, in_pathname = None\<rparr>]\<rparr>"

section \<open>The parser keeps commands and lines well-formed\<close>

lemma length_my_realloc [simp]: "length (my_realloc a n) = n"
  by (simp add: my_realloc_def)

lemma nth_my_realloc: "i < n \<Longrightarrow> i < length a \<Longrightarrow> my_realloc a n ! i = a ! i"
  by (simp add: my_realloc_def nth_append)

lemma take_my_realloc: "k \<le> n \<Longrightarrow> k \<le> length a \<Longrightarrow> take k (my_realloc a n) = take k a"
  by (simp add: my_realloc_def min_def)

lemma args_terminated_realloc:
  assumes "args_terminated r"
  shows "args_terminated (r\<lparr>args := my_realloc (args r) (n_args r + 2)\<rparr>)"
proof -
  from assms have le: "n_args r \<le> length (args r)"
    and strs: "list_all is_Str (take (n_args r) (args r))"
    and nul: "n_args r = 0 \<or> nth_opt (args r) (n_args r) = Some Null"
    by (simp_all add: args_terminated_def)
  have "n_args r = 0 \<or> nth_opt (my_realloc (args r) (n_args r + 2)) (n_args r) = Some Null"
  proof (cases "n_args r = 0")
    case True
    then show ?thesis by simp
  next
    case False
    with nul have "n_args r < length (args r)" and "args r ! n_args r = Null"
      by (auto simp: nth_opt_def split: if_splits)
    then show ?thesis by (simp add: nth_opt_def nth_my_realloc)
  qed
  with le strs show ?thesis
    by (simp add: args_terminated_def take_my_realloc)
qed

lemma args_terminated_store:
  assumes "args_terminated r" and "length (args r) = n_args r + 2"
  shows "args_terminated (r\<lparr>args := (args r)[n_args r := Str v, Suc (n_args r) := Null],
                             n_args := Suc (n_args r)\<rparr>)"
proof -
  from assms have strs: "list_all is_Str (take (n_args r) (args r))"
    by (simp add: args_terminated_def)
  have "take (Suc (n_args r)) ((args r)[n_args r := Str v, Suc (n_args r) := Null])
          = take (n_args r) (args r) @ [Str v]"
    using assms(2) by (simp add: take_Suc_conv_app_nth)
  with strs assms(2) show ?thesis
    by (simp add: args_terminated_def nth_opt_def is_Str_def)
qed

lemma parse_token_inv:
  assumes "args_terminated r" and "parse_token g r tok = Inr r'"
  shows "args_terminated r'"
proof -
  let ?r = "r\<lparr>args := my_realloc (args r) (n_args r + 2)\<rparr>"
  have t: "args_terminated ?r" using assms(1) by (rule args_terminated_realloc)
  have len: "length (args ?r) = n_args ?r + 2" by simp
  have t_in: "args_terminated (?r\<lparr>in_pathname := p\<rparr>)" for p
    using t by (simp add: args_terminated_def)
  have t_out: "args_terminated (?r\<lparr>out_pathname := p\<rparr>)" for p
    using t by (simp add: args_terminated_def)
  have t_arg: "args_terminated (?r\<lparr>args := (args ?r)[n_args ?r := Str v, Suc (n_args ?r) := Null],
                             n_args := Suc (n_args ?r)\<rparr>)" for v
    using t len by (rule args_terminated_store)
  from assms(2) show ?thesis
    unfolding parse_token_def Let_def
    using t_in t_out t_arg
    by (auto split: if_splits)
qed

lemma parse_token_n_args:
  assumes "parse_token g r tok = Inr r'"
  shows "n_args r \<le> n_args r'"
  using assms unfolding parse_token_def Let_def by (auto split: if_splits)

lemma parse_cmd_loop_inv:
  "args_terminated r \<Longrightarrow> parse_cmd_loop g r t = (e, Some c) \<Longrightarrow> command_ok c \<and> e = []"
proof (induction g r t rule: parse_cmd_loop.induct)
  case (1 getenv result)
  then show ?case by (auto simp: command_ok_def split: if_splits)
next
  case (2 getenv result tmp saveptr)
  from "2.prems"(2) obtain r' where r': "parse_token getenv result tmp = Inr r'"
    and loop: "parse_cmd_loop getenv r' (strtok_r BLANKS saveptr) = (e, Some c)"
    by (auto split: sum.splits)
  from "2.prems"(1) r' have "args_terminated r'" by (rule parse_token_inv)
  with "2.IH" r' loop show ?case by blast
qed

lemma args_terminated_empty: "args_terminated empty_command"
  by (simp add: args_terminated_def empty_command_def)

lemma parse_cmd_ok:
  assumes "parse_cmd g s = (e, Some c)"
  shows "command_ok c" and "e = []"
  using parse_cmd_loop_inv [OF args_terminated_empty] assms
  by (simp_all add: parse_cmd_def)

lemma parse_line_loop_inv:
  "line_ok r \<Longrightarrow> parse_line_loop g r t = (e, Some l)
    \<Longrightarrow> line_ok l \<and> e = [] \<and> n_commands r \<le> n_commands l \<and> (t \<noteq> None \<longrightarrow> n_commands r < n_commands l)"
proof (induction g r t arbitrary: e rule: parse_line_loop.induct)
  case (1 getenv result)
  then show ?case by simp
next
  case (2 getenv result cmd saveptr)
  let ?r' = "\<lambda>c. result\<lparr>commands := take (n_commands result) (commands result) @ [c],
                            n_commands := Suc (n_commands result)\<rparr>"
  from "2.prems"(2) obtain e1 c e2 where c: "parse_cmd getenv cmd = (e1, Some c)"
    and loop: "parse_line_loop getenv (?r' c) (strtok_r PIPE saveptr) = (e2, Some l)"
    and e: "e = e1 @ e2"
    by (auto simp: Let_def split: prod.splits option.splits)
  from c have cok: "command_ok c" and e1: "e1 = []" by (rule parse_cmd_ok)+
  from "2.prems"(1) cok have ok': "line_ok (?r' c)"
    by (simp add: line_ok_def)
  from "2.IH" [OF c [symmetric] refl refl ok' loop]
  show ?case using e e1 by simp
qed

lemma parse_line_ok:
  assumes "parse_line g line = (e, Some l)"
  shows "line_ok l" and "e = []" and "1 \<le> n_commands l"
proof -
  from assms obtain cmd saveptr where
    loop: "parse_line_loop g \<lparr>n_commands = 0, commands = []\<rparr> (Some (cmd, saveptr)) = (e, Some l)"
    by (auto simp: parse_line_def split: option.splits)
  have "line_ok \<lparr>n_commands = 0, commands = []\<rparr>" by (simp add: line_ok_def)
  from parse_line_loop_inv [OF this loop]
  show "line_ok l" and "e = []" and "1 \<le> n_commands l" by simp_all
qed

section \<open>The validators and the executor on well-formed lines\<close>

lemma argv_of_strs:
  "list_all is_Str xs \<Longrightarrow> argv_of (xs @ Null # rest) = Some (map str_of xs)"
proof (induction xs)
  case Nil
  then show ?case by simp
next
  case (Cons p xs)
  then obtain s where "p = Str s" by (cases p) (simp_all add: is_Str_def)
  with Cons show ?case by (simp add: str_of_def)
qed

lemma command_ok_cells:
  assumes "command_ok c"
  shows "args c = take (n_args c) (args c) @ Null # drop (Suc (n_args c)) (args c)"
    and "n_args c < length (args c)"
proof -
  from assms have "nth_opt (args c) (n_args c) = Some Null"
    by (auto simp: command_ok_def args_terminated_def)
  then have lt: "n_args c < length (args c)" and nul: "args c ! n_args c = Null"
    by (auto simp: nth_opt_def split: if_splits)
  show "n_args c < length (args c)" by (rule lt)
  from id_take_nth_drop [OF lt] nul
  show "args c = take (n_args c) (args c) @ Null # drop (Suc (n_args c)) (args c)" by simp
qed

lemma command_ok_argv:
  assumes "command_ok c"
  shows "argv_of (args c) = Some (map str_of (take (n_args c) (args c)))"
proof -
  from assms have strs: "list_all is_Str (take (n_args c) (args c))"
    by (simp add: command_ok_def args_terminated_def)
  from argv_of_strs [OF strs, of "drop (Suc (n_args c)) (args c)"] command_ok_cells(1) [OF assms]
  show ?thesis by simp
qed

lemma command_ok_str_at:
  assumes "command_ok c" and "i < n_args c"
  shows "\<exists>s. str_at (args c) i = Some s"
proof -
  from assms(1) have strs: "list_all is_Str (take (n_args c) (args c))"
    and le: "n_args c \<le> length (args c)"
    by (simp_all add: command_ok_def args_terminated_def)
  from assms(2) le have i: "i < length (take (n_args c) (args c))" by simp
  with strs have "is_Str (take (n_args c) (args c) ! i)"
    by (simp add: list_all_length)
  with assms(2) have "is_Str (args c ! i)" by simp
  then obtain s where "args c ! i = Str s" by (cases "args c ! i") (simp_all add: is_Str_def)
  with assms(2) le show ?thesis by (simp add: str_at_def nth_opt_def)
qed

lemma command_ok_arg0:
  assumes "command_ok c"
  shows "\<exists>s. str_at (args c) 0 = Some s"
  using assms command_ok_str_at [OF assms, of 0] by (simp add: command_ok_def)

lemma line_ok_nth:
  assumes "line_ok l" and "i < n_commands l"
  shows "nth_opt (commands l) i = Some (commands l ! i)" and "command_ok (commands l ! i)"
  using assms by (simp_all add: line_ok_def nth_opt_def list_all_length)

lemma check_redirections_loop_defined:
  "line_ok l \<Longrightarrow> check_redirections_loop l i \<noteq> None"
proof (induction l i rule: check_redirections_loop.induct)
  case (1 l i)
  show ?case
  proof (cases "i < n_commands l")
    case True
    from line_ok_nth(1) [OF "1.prems" True]
    have n: "nth_opt (commands l) i = Some (commands l ! i)" .
    show ?thesis
    proof (cases "(in_pathname (commands l ! i) \<noteq> None \<and> i \<noteq> 0)
                  \<or> (out_pathname (commands l ! i) \<noteq> None \<and> i \<noteq> n_commands l - 1)")
      case True
      then show ?thesis
        by (subst check_redirections_loop.simps) (auto simp: \<open>i < n_commands l\<close> n)
    next
      case False
      then have a: "\<not> (in_pathname (commands l ! i) \<noteq> None \<and> i \<noteq> 0)"
        and b: "\<not> (out_pathname (commands l ! i) \<noteq> None \<and> i \<noteq> n_commands l - 1)"
        by blast+
      from "1.IH" [OF \<open>i < n_commands l\<close> n a b "1.prems"] a b
      show ?thesis
        by (subst check_redirections_loop.simps) (simp add: \<open>i < n_commands l\<close> n)
    qed
  next
    case False
    then show ?thesis by (subst check_redirections_loop.simps) simp
  qed
qed

lemma cd_in_pipe_loop_defined:
  "line_ok l \<Longrightarrow> cd_in_pipe_loop l i \<noteq> None"
proof (induction l i rule: cd_in_pipe_loop.induct)
  case (1 l i)
  show ?case
  proof (cases "i < n_commands l")
    case True
    from line_ok_nth [OF "1.prems" True]
    have n: "nth_opt (commands l) i = Some (commands l ! i)" and ok: "command_ok (commands l ! i)" .
    from command_ok_arg0 [OF ok] obtain a0 where a0: "str_at (args (commands l ! i)) 0 = Some a0" ..
    show ?thesis
    proof (cases "a0 = CD")
      case True
      then show ?thesis
        by (subst cd_in_pipe_loop.simps) (simp add: \<open>i < n_commands l\<close> n a0)
    next
      case False
      from "1.IH" [OF \<open>i < n_commands l\<close> n a0 False "1.prems"] False
      show ?thesis
        by (subst cd_in_pipe_loop.simps) (simp add: \<open>i < n_commands l\<close> n a0)
    qed
  next
    case False
    then show ?thesis by (subst cd_in_pipe_loop.simps) simp
  qed
qed

lemma check_cd_defined:
  assumes "line_ok l" and "1 \<le> n_commands l"
  shows "check_cd l \<noteq> None"
proof -
  from assms have z: "0 < n_commands l" by simp
  from line_ok_nth [OF assms(1) z]
  have n: "nth_opt (commands l) 0 = Some (commands l ! 0)" and ok: "command_ok (commands l ! 0)" .
  from command_ok_arg0 [OF ok] obtain a0 where a0: "str_at (args (commands l ! 0)) 0 = Some a0" ..
  from cd_in_pipe_loop_defined [OF assms(1), of "Suc 0"]
  obtain b where b: "cd_in_pipe_loop l (Suc 0) = Some b"
    by auto
  show ?thesis
    by (cases b) (simp_all add: check_cd_def b n a0)
qed

lemma redirect_not_ub: "redirect w from_fd to_fd s \<noteq> Inl Undefined_behaviour"
  by (simp add: redirect_def fatal_errno_def split: prod.splits)

lemma open_stdin_not_ub: "open_stdin w a c next_stdin s \<noteq> Inl Undefined_behaviour"
  by (simp add: open_stdin_def split: option.splits prod.splits)

lemma open_stdout_not_ub: "open_stdout w l a c next_stdin s \<noteq> Inl Undefined_behaviour"
  by (simp add: open_stdout_def fatal_errno_def split: option.splits prod.splits)

lemma run_child_not_ub:
  assumes "command_ok c"
  shows "run_child w c c_stdin c_stdout s \<noteq> Inl Undefined_behaviour"
proof -
  from command_ok_arg0 [OF assms] obtain prog where f: "str_at (args c) 0 = Some prog" ..
  note v = command_ok_argv [OF assms]
  show ?thesis
    using redirect_not_ub
    by (auto simp: run_child_def fatal_errno_def f v split: prod.splits sum.splits)
qed

lemma execute_line_loop_not_ub:
  "line_ok l \<Longrightarrow> execute_line_loop w l a next_stdin s \<noteq> Inl Undefined_behaviour"
proof (induction w l a next_stdin s rule: execute_line_loop.induct)
  case (1 w l a next_stdin s)
  show ?case
  proof (cases "a < n_commands l")
    case False
    then show ?thesis by (subst execute_line_loop.simps) simp
  next
    case True
    from line_ok_nth [OF "1.prems" True]
    have n: "nth_opt (commands l) a = Some (commands l ! a)" and ok: "command_ok (commands l ! a)" .
    let ?c = "commands l ! a"
    show ?thesis
    proof (cases "open_stdin w a ?c next_stdin s")
      case (Inl out)
      with open_stdin_not_ub [of w a ?c next_stdin s] show ?thesis
        by (subst execute_line_loop.simps) (simp add: True n)
    next
      case (Inr p1)
      obtain curr_stdin s1 where p1: "p1 = (curr_stdin, s1)" by (cases p1)
      show ?thesis
      proof (cases "open_stdout w l a ?c next_stdin s1")
        case (Inl out)
        with open_stdout_not_ub [of w l a ?c next_stdin s1] Inr p1 show ?thesis
          by (subst execute_line_loop.simps) (simp add: True n)
      next
        case Inr2: (Inr p2)
        obtain curr_stdout next_stdin' s2 where p2: "p2 = ((curr_stdout, next_stdin'), s2)"
          by (cases p2) auto
        show ?thesis
        proof (cases "run_child w ?c curr_stdin curr_stdout s2")
          case (Inl out)
          with run_child_not_ub [OF ok, of w curr_stdin curr_stdout s2] Inr p1 Inr2 p2
          show ?thesis
            by (subst execute_line_loop.simps) (simp add: True n)
        next
          case Inr3: (Inr s3)
          from "1.IH" [OF True n Inr [unfolded p1] refl Inr2 [unfolded p2] refl refl Inr3 "1.prems"]
          show ?thesis
            using Inr p1 Inr2 p2 Inr3
            by (subst execute_line_loop.simps) (simp add: True n)
        qed
      qed
    qed
  qed
qed

lemma execute_line_not_ub:
  assumes "line_ok l" and "1 \<le> n_commands l"
  shows "execute_line w l s \<noteq> Undefined_behaviour"
proof -
  from assms have z: "0 < n_commands l" by simp
  from line_ok_nth [OF assms(1) z]
  have n: "nth_opt (commands l) 0 = Some (commands l ! 0)" and ok: "command_ok (commands l ! 0)" .
  from command_ok_arg0 [OF ok] obtain a0 where a0: "str_at (args (commands l ! 0)) 0 = Some a0" ..
  show ?thesis
  proof (cases "CD = a0")
    case False
    with execute_line_loop_not_ub [OF assms(1), of w 0 NO_REDIR s] show ?thesis
      by (auto simp: execute_line_def n a0 split: sum.splits)
  next
    case True
    show ?thesis
    proof (cases "n_commands l = 1 \<and> n_args (commands l ! 0) = 2")
      case False
      with True show ?thesis by (auto simp: execute_line_def n a0)
    next
      case t: True
      then have "1 < n_args (commands l ! 0)" by simp
      from command_ok_str_at [OF ok this]
      obtain d where "str_at (args (commands l ! 0)) 1 = Some d" ..
      with True t show ?thesis by (simp add: execute_line_def n a0)
    qed
  qed
qed

lemma execute_not_ub: "execute w line s \<noteq> Undefined_behaviour"
proof (cases "parse_line (w_getenv w) line")
  case (Pair errs r)
  show ?thesis
  proof (cases r)
    case None
    with Pair show ?thesis by (simp add: execute_def)
  next
    case (Some l)
    with Pair have p: "parse_line (w_getenv w) line = (errs, Some l)" by simp
    note ok = parse_line_ok(1) [OF p] and pos = parse_line_ok(3) [OF p]
    from check_redirections_loop_defined [OF ok, of 0]
    obtain e1 r1 where c1: "check_redirections l = Some (e1, r1)"
      by (auto simp: check_redirections_def)
    from check_cd_defined [OF ok pos]
    obtain e2 r2 where c2: "check_cd l = Some (e2, r2)" by auto
    from execute_line_not_ub [OF ok pos] show ?thesis
      by (simp add: execute_def p c1 c2 Let_def)
  qed
qed

section \<open>Single tokens\<close>

lemma strtok_r_single:
  assumes "set tok \<inter> set delim = {}" and "tok \<noteq> []"
  shows "strtok_r delim tok = Some (tok, [])"
proof -
  from assms(1) have a: "\<forall>c\<in>set tok. c \<notin> set delim" by auto
  obtain x xs where t: "tok = x # xs" using assms(2) by (cases tok) auto
  with a have "x \<notin> set delim" by simp
  then have d: "dropWhile (\<lambda>c. c \<in> set delim) tok = tok" by (simp add: t)
  from a have tw: "takeWhile (\<lambda>c. c \<notin> set delim) tok = tok" by (simp add: takeWhile_eq_all_conv)
  from a have dw: "dropWhile (\<lambda>c. c \<notin> set delim) tok = []" by (simp add: dropWhile_eq_Nil_conv)
  show ?thesis by (simp add: strtok_r_def d tw dw assms(2))
qed

lemma strtok_r_Nil: "strtok_r delim [] = None"
  by (simp add: strtok_r_def)

lemma parse_token_dollar:
  "parse_token getenv result (CHR ''$'' # name) =
     Inr (result\<lparr>args := (my_realloc (args result) (n_args result + 2))
                            [n_args result := Str (case getenv name of None \<Rightarrow> [] | Some v \<Rightarrow> v),
                             Suc (n_args result) := Null],
                  n_args := Suc (n_args result)\<rparr>)"
  by (simp add: parse_token_def first_char_def)


section \<open>The supervision loop\<close>

lemma report_child_trace:
  "report_child w pid status s = s\<lparr>trace := trace s @ map Stdout (termination_report w pid status)\<rparr>"
  by (cases status) (simp_all add: report_child_def termination_report_def log_def)

lemma wait_for_children_trace:
  "\<forall>p\<in>set (children s). 0 < p \<Longrightarrow>
     wait_for_children w s = s\<lparr>trace := trace s @ supervised w (children s), children := []\<rparr>"
proof (induction "children s" arbitrary: s)
  case Nil
  then have c: "children s = []" by simp
  show ?case
    by (subst wait_for_children.simps) (simp add: sys_waitpid_def c log_def supervised_def)
next
  case (Cons p ps)
  then have c: "children s = p # ps" by simp
  with Cons.prems have pos: "0 < p" and rest: "\<forall>q\<in>set ps. 0 < q" by simp_all
  let ?s1 = "(log (Sys_waitpid p) s)\<lparr>children := ps\<rparr>"
  let ?s2 = "report_child w p (w_status w p) ?s1"
  have w: "sys_waitpid w s = (p, w_status w p, ?s1)" by (simp add: sys_waitpid_def c)
  have ch: "children ?s2 = ps" by simp
  have "wait_for_children w ?s2 = ?s2\<lparr>trace := trace ?s2 @ supervised w (children ?s2), children := []\<rparr>"
    using Cons.hyps(1) [of ?s2] ch rest by simp
  moreover have "wait_for_children w s = wait_for_children w ?s2"
    by (subst wait_for_children.simps) (simp add: w pos)
  ultimately show ?case
    by (simp add: c report_child_trace log_def supervised_def)
qed


section \<open>The built-in\<close>

lemma change_current_directory_result:
  "change_current_directory w newdir s =
     (case w_chdir w (trace s) (cwd s) newdir of
        Some d \<Rightarrow> s\<lparr>trace := trace s @ [Sys_chdir newdir 0], cwd := d\<rparr>
      | None \<Rightarrow> s\<lparr>trace := trace s @ [Sys_chdir newdir (- 1),
                                         Perror ''error in change directory'']\<rparr>)"
  by (simp add: change_current_directory_def sys_chdir_def perror_def log_def
           split: option.splits)

lemma check_cd_ok_first_cd:
  assumes "line_ok l" and "1 \<le> n_commands l"
    and "check_cd l = Some (e, CHECK_OK)"
    and "str_at (args (commands l ! 0)) 0 = Some CD"
  shows "n_commands l = 1" and "n_args (commands l ! 0) = 2"
    and "in_pathname (commands l ! 0) = None" and "out_pathname (commands l ! 0) = None"
    and "e = []"
proof -
  from assms(2) have z: "0 < n_commands l" by simp
  from line_ok_nth(1) [OF assms(1) z]
  have n: "nth_opt (commands l) 0 = Some (commands l ! 0)" .
  from cd_in_pipe_loop_defined [OF assms(1), of "Suc 0"]
  obtain b where b: "cd_in_pipe_loop l (Suc 0) = Some b" by auto
  from assms(3) have all: "n_commands l = 1 \<and> n_args (commands l ! 0) = 2
      \<and> in_pathname (commands l ! 0) = None \<and> out_pathname (commands l ! 0) = None \<and> e = []"
    using assms(2)
    by (cases b) (auto simp: check_cd_def b n assms(4) split: if_splits)
  then show "n_commands l = 1" and "n_args (commands l ! 0) = 2"
    and "in_pathname (commands l ! 0) = None" and "out_pathname (commands l ! 0) = None"
    and "e = []"
    by simp_all
qed


section \<open>The redirection check\<close>

lemma check_redirections_loop_step:
  assumes "line_ok l" and "i < n_commands l"
  shows "check_redirections_loop l i =
           (if in_misplaced l i then Some ([msg_in_redirection], CHECK_FAILED)
            else if out_misplaced l i then Some ([msg_out_redirection], CHECK_FAILED)
            else check_redirections_loop l (Suc i))"
  using line_ok_nth(1) [OF assms]
  by (subst check_redirections_loop.simps)
     (simp add: assms(2) in_misplaced_def out_misplaced_def msg_in_redirection_def
        msg_out_redirection_def)

lemma check_redirections_loop_end:
  "\<not> i < n_commands l \<Longrightarrow> check_redirections_loop l i = Some ([], CHECK_OK)"
  by (subst check_redirections_loop.simps) simp

lemma check_redirections_loop_ok_iff:
  "line_ok l \<Longrightarrow>
     (check_redirections_loop l i = Some ([], CHECK_OK))
       = (\<forall>j. i \<le> j \<and> j < n_commands l \<longrightarrow> \<not> in_misplaced l j \<and> \<not> out_misplaced l j)"
proof (induction l i rule: check_redirections_loop.induct)
  case (1 l i)
  show ?case
  proof (cases "i < n_commands l")
    case False
    then have "\<forall>j. i \<le> j \<and> j < n_commands l \<longrightarrow> \<not> in_misplaced l j \<and> \<not> out_misplaced l j"
      by auto
    with False show ?thesis by (simp add: check_redirections_loop_end)
  next
    case True
    note step = check_redirections_loop_step [OF "1.prems" True]
    show ?thesis
    proof (cases "in_misplaced l i \<or> out_misplaced l i")
      case bad: True
      then have "check_redirections_loop l i \<noteq> Some ([], CHECK_OK)"
        by (auto simp: step)
      moreover from bad True
      have "\<not> (\<forall>j. i \<le> j \<and> j < n_commands l \<longrightarrow> \<not> in_misplaced l j \<and> \<not> out_misplaced l j)"
        by auto
      ultimately show ?thesis by simp
    next
      case good: False
      then have a: "\<not> (in_pathname (commands l ! i) \<noteq> None \<and> i \<noteq> 0)"
        and b: "\<not> (out_pathname (commands l ! i) \<noteq> None \<and> i \<noteq> n_commands l - 1)"
        by (simp_all add: in_misplaced_def out_misplaced_def)
      from "1.IH" [OF True line_ok_nth(1) [OF "1.prems" True] a b "1.prems"]
      have ih: "(check_redirections_loop l (Suc i) = Some ([], CHECK_OK))
          = (\<forall>j. Suc i \<le> j \<and> j < n_commands l \<longrightarrow> \<not> in_misplaced l j \<and> \<not> out_misplaced l j)"
        by simp
      have "(\<forall>j. i \<le> j \<and> j < n_commands l \<longrightarrow> \<not> in_misplaced l j \<and> \<not> out_misplaced l j)
          = (\<forall>j. Suc i \<le> j \<and> j < n_commands l \<longrightarrow> \<not> in_misplaced l j \<and> \<not> out_misplaced l j)"
      proof
        assume "\<forall>j. i \<le> j \<and> j < n_commands l \<longrightarrow> \<not> in_misplaced l j \<and> \<not> out_misplaced l j"
        then show "\<forall>j. Suc i \<le> j \<and> j < n_commands l \<longrightarrow> \<not> in_misplaced l j \<and> \<not> out_misplaced l j"
          by auto
      next
        assume r: "\<forall>j. Suc i \<le> j \<and> j < n_commands l \<longrightarrow> \<not> in_misplaced l j \<and> \<not> out_misplaced l j"
        show "\<forall>j. i \<le> j \<and> j < n_commands l \<longrightarrow> \<not> in_misplaced l j \<and> \<not> out_misplaced l j"
        proof (intro allI impI)
          fix j assume j: "i \<le> j \<and> j < n_commands l"
          show "\<not> in_misplaced l j \<and> \<not> out_misplaced l j"
          proof (cases "j = i")
            case True
            with good show ?thesis by simp
          next
            case False
            with j have "Suc i \<le> j \<and> j < n_commands l" by simp
            with r show ?thesis by blast
          qed
        qed
      qed
      with ih good show ?thesis by (simp add: step)
    qed
  qed
qed

lemma check_redirections_loop_first:
  "line_ok l \<Longrightarrow> i \<le> k \<Longrightarrow> k < n_commands l \<Longrightarrow>
   \<forall>j. i \<le> j \<and> j < k \<longrightarrow> \<not> in_misplaced l j \<and> \<not> out_misplaced l j \<Longrightarrow>
   in_misplaced l k \<or> out_misplaced l k \<Longrightarrow>
   check_redirections_loop l i =
     Some ([if in_misplaced l k then msg_in_redirection else msg_out_redirection], CHECK_FAILED)"
proof (induction "k - i" arbitrary: i)
  case 0
  then have "i = k" by simp
  with 0 show ?case
    by (auto simp: check_redirections_loop_step)
next
  case (Suc d)
  then have lt: "i < k" by simp
  with Suc.prems have i: "i < n_commands l" by simp
  from Suc.prems(4) lt have good: "\<not> in_misplaced l i \<and> \<not> out_misplaced l i" by simp
  have "check_redirections_loop l (Suc i) =
     Some ([if in_misplaced l k then msg_in_redirection else msg_out_redirection], CHECK_FAILED)"
  proof (rule Suc.hyps(1))
    show "d = k - Suc i" using Suc.hyps(2) by simp
    show "line_ok l" by (rule Suc.prems(1))
    show "Suc i \<le> k" using lt by simp
    show "k < n_commands l" by (rule Suc.prems(3))
    show "\<forall>j. Suc i \<le> j \<and> j < k \<longrightarrow> \<not> in_misplaced l j \<and> \<not> out_misplaced l j"
      using Suc.prems(4) by auto
    show "in_misplaced l k \<or> out_misplaced l k" by (rule Suc.prems(5))
  qed
  with good show ?case
    by (simp add: check_redirections_loop_step [OF Suc.prems(1) i])
qed

lemma check_redirections_cases:
  assumes "line_ok l"
  shows "check_redirections l = Some ([], CHECK_OK)
       \<or> check_redirections l = Some ([msg_in_redirection], CHECK_FAILED)
       \<or> check_redirections l = Some ([msg_out_redirection], CHECK_FAILED)"
proof (cases "\<forall>j. 0 \<le> j \<and> j < n_commands l \<longrightarrow> \<not> in_misplaced l j \<and> \<not> out_misplaced l j")
  case True
  with check_redirections_loop_ok_iff [OF assms, of 0] show ?thesis
    by (simp add: check_redirections_def)
next
  case False
  then have ex: "\<exists>k. k < n_commands l \<and> (in_misplaced l k \<or> out_misplaced l k)" by auto
  define k where "k = (LEAST k. k < n_commands l \<and> (in_misplaced l k \<or> out_misplaced l k))"
  from ex have kP: "k < n_commands l \<and> (in_misplaced l k \<or> out_misplaced l k)"
    unfolding k_def by (rule LeastI_ex)
  have least: "\<forall>j. 0 \<le> j \<and> j < k \<longrightarrow> \<not> in_misplaced l j \<and> \<not> out_misplaced l j"
  proof (intro allI impI)
    fix j assume j: "0 \<le> j \<and> j < k"
    show "\<not> in_misplaced l j \<and> \<not> out_misplaced l j"
    proof (rule ccontr)
      assume "\<not> (\<not> in_misplaced l j \<and> \<not> out_misplaced l j)"
      with j kP have "j < n_commands l \<and> (in_misplaced l j \<or> out_misplaced l j)" by auto
      then have "k \<le> j" unfolding k_def by (rule Least_le)
      with j show False by simp
    qed
  qed
  from check_redirections_loop_first [OF assms _ _ least, of ] kP
  have "check_redirections_loop l 0 =
     Some ([if in_misplaced l k then msg_in_redirection else msg_out_redirection], CHECK_FAILED)"
    by simp
  then show ?thesis by (auto simp: check_redirections_def)
qed

lemma execute_rejected_by_redirections:
  assumes "parse_line (w_getenv w) line = (err, Some l)"
    and "check_redirections l = Some ([msg], CHECK_FAILED)"
  shows "execute w line s = Returned (s\<lparr>trace := trace s @ [Stderr msg]\<rparr>)"
proof -
  from parse_line_ok(2) [OF assms(1)] have "err = []" .
  with assms show ?thesis by (simp add: execute_def print_stderr_def)
qed


section \<open>The check of the built-in\<close>

lemma cd_in_pipe_loop_eq:
  "line_ok l \<Longrightarrow> cd_in_pipe_loop l i = Some (\<exists>j. i \<le> j \<and> j < n_commands l \<and> is_cd l j)"
proof (induction l i rule: cd_in_pipe_loop.induct)
  case (1 l i)
  show ?case
  proof (cases "i < n_commands l")
    case False
    then have "\<not> (\<exists>j. i \<le> j \<and> j < n_commands l \<and> is_cd l j)" by auto
    with False show ?thesis by (subst cd_in_pipe_loop.simps) simp
  next
    case True
    from line_ok_nth [OF "1.prems" True]
    have n: "nth_opt (commands l) i = Some (commands l ! i)" and ok: "command_ok (commands l ! i)" .
    from command_ok_arg0 [OF ok] obtain a0 where a0: "str_at (args (commands l ! i)) 0 = Some a0" ..
    show ?thesis
    proof (cases "a0 = CD")
      case cd: True
      with a0 True have "\<exists>j. i \<le> j \<and> j < n_commands l \<and> is_cd l j"
        by (auto simp: is_cd_def)
      with cd show ?thesis
        by (subst cd_in_pipe_loop.simps) (simp add: True n a0)
    next
      case False
      from "1.IH" [OF True n a0 False "1.prems"]
      have ih: "cd_in_pipe_loop l (Suc i) = Some (\<exists>j. Suc i \<le> j \<and> j < n_commands l \<and> is_cd l j)"
        by simp
      from False a0 have not_i: "\<not> is_cd l i" by (simp add: is_cd_def)
      have "(\<exists>j. Suc i \<le> j \<and> j < n_commands l \<and> is_cd l j)
          = (\<exists>j. i \<le> j \<and> j < n_commands l \<and> is_cd l j)"
      proof
        assume "\<exists>j. Suc i \<le> j \<and> j < n_commands l \<and> is_cd l j"
        then obtain j where "Suc i \<le> j" and r: "j < n_commands l" "is_cd l j" by blast
        then have "i \<le> j" by simp
        with r show "\<exists>j. i \<le> j \<and> j < n_commands l \<and> is_cd l j" by blast
      next
        assume "\<exists>j. i \<le> j \<and> j < n_commands l \<and> is_cd l j"
        then obtain j where j: "i \<le> j" "j < n_commands l" "is_cd l j" by blast
        with not_i have "j \<noteq> i" by auto
        with j(1) have "Suc i \<le> j" by simp
        with j(2,3) show "\<exists>j. Suc i \<le> j \<and> j < n_commands l \<and> is_cd l j" by blast
      qed
      with ih False show ?thesis
        by (subst cd_in_pipe_loop.simps) (simp add: True n a0)
    qed
  qed
qed

lemma check_cd_cases:
  assumes "line_ok l" and "1 \<le> n_commands l"
  shows "check_cd l = Some ([], CHECK_OK) \<or> (\<exists>msg. check_cd l = Some ([msg], CHECK_FAILED))"
proof -
  from assms(2) have z: "0 < n_commands l" by simp
  from line_ok_nth [OF assms(1) z]
  have n: "nth_opt (commands l) 0 = Some (commands l ! 0)" and ok: "command_ok (commands l ! 0)" .
  from command_ok_arg0 [OF ok] obtain a0 where a0: "str_at (args (commands l ! 0)) 0 = Some a0" ..
  define b where "b = (\<exists>j. Suc 0 \<le> j \<and> j < n_commands l \<and> is_cd l j)"
  have loop: "cd_in_pipe_loop l (Suc 0) = Some b"
    unfolding b_def by (rule cd_in_pipe_loop_eq [OF assms(1)])
  show ?thesis
    by (cases b) (simp_all add: check_cd_def loop n a0)
qed

lemma check_cd_in_pipe:
  assumes "line_ok l" and "\<exists>j. 1 \<le> j \<and> j < n_commands l \<and> is_cd l j"
  shows "check_cd l = Some ([''Parsing error: cannot have CD in pipe\<newline>''], CHECK_FAILED)"
proof -
  from assms(2) have "\<exists>j. Suc 0 \<le> j \<and> j < n_commands l \<and> is_cd l j" by simp
  with cd_in_pipe_loop_eq [OF assms(1), of "Suc 0"]
  have "cd_in_pipe_loop l (Suc 0) = Some True" by simp
  then show ?thesis by (simp add: check_cd_def)
qed

lemma check_cd_sole:
  assumes "line_ok l" and "n_commands l = 1" and "is_cd l 0"
    and "in_pathname (commands l ! 0) = None" and "out_pathname (commands l ! 0) = None"
    and "n_args (commands l ! 0) = 2"
  shows "check_cd l = Some ([], CHECK_OK)"
proof -
  from assms(2) have z: "0 < n_commands l" by simp
  from line_ok_nth(1) [OF assms(1) z]
  have n: "nth_opt (commands l) 0 = Some (commands l ! 0)" .
  from assms(3) have a0: "str_at (args (commands l ! 0)) 0 = Some CD" by (simp add: is_cd_def)
  from assms(2) have "\<not> (\<exists>j. Suc 0 \<le> j \<and> j < n_commands l \<and> is_cd l j)" by auto
  with cd_in_pipe_loop_eq [OF assms(1), of "Suc 0"]
  have "cd_in_pipe_loop l (Suc 0) = Some False" by simp
  then show ?thesis
    by (simp add: check_cd_def n a0 assms(2,4,5,6))
qed

lemma check_cd_no_cd:
  assumes "line_ok l" and "1 \<le> n_commands l" and "\<forall>j<n_commands l. \<not> is_cd l j"
  shows "check_cd l = Some ([], CHECK_OK)"
proof -
  from assms(2) have z: "0 < n_commands l" by simp
  from line_ok_nth [OF assms(1) z]
  have n: "nth_opt (commands l) 0 = Some (commands l ! 0)" and ok: "command_ok (commands l ! 0)" .
  from command_ok_arg0 [OF ok] obtain a0 where a0: "str_at (args (commands l ! 0)) 0 = Some a0" ..
  from assms(3) z have "\<not> is_cd l 0" by simp
  with a0 have ne: "a0 \<noteq> CD" by (simp add: is_cd_def)
  from assms(3) have "\<not> (\<exists>j. Suc 0 \<le> j \<and> j < n_commands l \<and> is_cd l j)" by auto
  with cd_in_pipe_loop_eq [OF assms(1), of "Suc 0"]
  have "cd_in_pipe_loop l (Suc 0) = Some False" by simp
  then show ?thesis
    by (simp add: check_cd_def n a0 ne)
qed

lemma execute_rejected_by_cd:
  assumes "parse_line (w_getenv w) line = (err, Some l)"
    and "check_redirections l = Some ([], CHECK_OK)"
    and "check_cd l = Some ([msg], CHECK_FAILED)"
  shows "execute w line s = Returned (s\<lparr>trace := trace s @ [Stderr msg]\<rparr>)"
proof -
  from parse_line_ok(2) [OF assms(1)] have "err = []" .
  with assms show ?thesis by (simp add: execute_def print_stderr_def)
qed


section \<open>Tokens of strtok-r and segments\<close>

lemma strtok_r_None_iff: "(strtok_r delim s = None) = (\<forall>c\<in>set s. c \<in> set delim)"
  by (simp add: strtok_r_def Let_def dropWhile_eq_Nil_conv)

lemma strtok_r_skip: "strtok_r [d] (d # xs) = strtok_r [d] xs"
  by (simp add: strtok_r_def)

lemma strtok_r_token:
  assumes "x \<noteq> d"
  shows "strtok_r [d] (x # xs) =
           Some (x # takeWhile (\<lambda>c. c \<noteq> d) xs,
                 case dropWhile (\<lambda>c. c \<noteq> d) xs of [] \<Rightarrow> [] | y # r \<Rightarrow> r)"
proof -
  have a: "strtok_r [d] (x # xs) =
             Some (x # takeWhile (\<lambda>c. c \<noteq> d) xs,
                   if dropWhile (\<lambda>c. c \<noteq> d) xs = [] then []
                   else tl (dropWhile (\<lambda>c. c \<noteq> d) xs))"
    using assms by (simp add: strtok_r_def del: dropWhile_eq_Nil_conv)
  have b: "(if e = [] then [] else tl e) = (case e of [] \<Rightarrow> [] | y # r \<Rightarrow> r)"
    for e :: string
    by (cases e) simp_all
  show ?thesis unfolding a b ..
qed

lemma segments_not_Nil: "segments d s \<noteq> []"
  by (induction s) (auto split: list.splits)

lemma segments_unfold:
  "segments d s =
     takeWhile (\<lambda>c. c \<noteq> d) s
     # (case dropWhile (\<lambda>c. c \<noteq> d) s of [] \<Rightarrow> [] | y # r \<Rightarrow> segments d r)"
proof (induction s)
  case Nil
  show ?case by simp
next
  case (Cons x xs)
  show ?case
  proof (cases "x = d")
    case True
    then show ?thesis by simp
  next
    case False
    from Cons False show ?thesis by simp
  qed
qed

lemma toks_from_segments:
  "toks_from [d] (strtok_r [d] s) = filter (\<lambda>x. x \<noteq> []) (segments d s)"
proof (induction s rule: length_induct)
  case (1 s)
  show ?case
  proof (cases s)
    case Nil
    then show ?thesis by (simp add: strtok_r_def)
  next
    case (Cons x xs)
    show ?thesis
    proof (cases "x = d")
      case True
      from "1.IH" Cons have "toks_from [d] (strtok_r [d] xs) = filter (\<lambda>x. x \<noteq> []) (segments d xs)"
        by simp
      with True Cons show ?thesis by (simp add: strtok_r_skip)
    next
      case False
      define e where "e = dropWhile (\<lambda>c. c \<noteq> d) xs"
      define tok where "tok = x # takeWhile (\<lambda>c. c \<noteq> d) xs"
      have tok: "strtok_r [d] s = Some (tok, case e of [] \<Rightarrow> [] | y # r \<Rightarrow> r)"
        unfolding e_def tok_def Cons using False by (rule strtok_r_token)
      have "segments d s = takeWhile (\<lambda>c. c \<noteq> d) s
              # (case dropWhile (\<lambda>c. c \<noteq> d) s of [] \<Rightarrow> [] | y # r \<Rightarrow> segments d r)"
        by (rule segments_unfold)
      with False have seg: "segments d s = tok # (case e of [] \<Rightarrow> [] | y # r \<Rightarrow> segments d r)"
        by (simp add: Cons e_def tok_def)
      have tne: "tok \<noteq> []" by (simp add: tok_def)
      show ?thesis
      proof (cases e)
        case Nil
        with tok seg tne show ?thesis by (simp add: strtok_r_def)
      next
        case dw: (Cons y r)
        have "length e \<le> length xs" unfolding e_def by (rule length_dropWhile_le)
        with dw Cons have "length r < length s" by simp
        with "1.IH" have "toks_from [d] (strtok_r [d] r) = filter (\<lambda>x. x \<noteq> []) (segments d r)"
          by blast
        with tok seg dw tne show ?thesis by simp
      qed
    qed
  qed
qed

lemma contains_token_not_Nil: "contains_token seg \<Longrightarrow> seg \<noteq> []"
  by (auto simp: contains_token_def)

lemma parse_cmd_contains_token:
  assumes "parse_cmd g cmd = (e, Some c)"
  shows "contains_token cmd"
proof (rule ccontr)
  assume "\<not> contains_token cmd"
  then have "strtok_r BLANKS cmd = None"
    by (simp add: strtok_r_None_iff contains_token_def)
  with assms show False by (simp add: parse_cmd_def empty_command_def)
qed

lemma parse_line_loop_count:
  "parse_line_loop g r t = (e, Some l) \<Longrightarrow>
     n_commands l = n_commands r + length (toks_from PIPE t)
     \<and> (\<forall>x\<in>set (toks_from PIPE t). contains_token x)"
proof (induction g r t arbitrary: e rule: parse_line_loop.induct)
  case (1 getenv result)
  then show ?case by simp
next
  case (2 getenv result cmd saveptr)
  let ?r' = "\<lambda>c. result\<lparr>commands := take (n_commands result) (commands result) @ [c],
                            n_commands := Suc (n_commands result)\<rparr>"
  from "2.prems" obtain e1 c e2 where c: "parse_cmd getenv cmd = (e1, Some c)"
    and loop: "parse_line_loop getenv (?r' c) (strtok_r PIPE saveptr) = (e2, Some l)"
    by (auto simp: Let_def split: prod.splits option.splits)
  from "2.IH" [OF c [symmetric] refl refl loop] parse_cmd_contains_token [OF c]
  show ?case by simp
qed

lemma filter_tokens:
  assumes "\<forall>x\<in>set (filter (\<lambda>x. x \<noteq> []) xs). contains_token x"
  shows "filter contains_token xs = filter (\<lambda>x. x \<noteq> []) xs"
  using assms
proof (induction xs)
  case Nil
  show ?case by simp
next
  case (Cons x xs)
  then show ?case by (auto dest: contains_token_not_Nil)
qed


section \<open>Lines with the same tokens parse alike\<close>

lemma toks_from_Nil_iff: "(toks_from delim t = []) = (t = None)"
  by (cases t) auto

lemma parse_line_loop_toks:
  "toks_from PIPE t1 = toks_from PIPE t2 \<Longrightarrow> parse_line_loop g r t1 = parse_line_loop g r t2"
proof (induction g r t1 arbitrary: t2 rule: parse_line_loop.induct)
  case (1 getenv result)
  then have "toks_from PIPE t2 = []" by simp
  then have "t2 = None" by (simp only: toks_from_Nil_iff)
  then show ?case by simp
next
  case (2 getenv result cmd saveptr)
  from "2.prems" obtain saveptr2 where t2: "t2 = Some (cmd, saveptr2)"
    and rest: "toks_from PIPE (strtok_r PIPE saveptr) = toks_from PIPE (strtok_r PIPE saveptr2)"
    by (cases t2) auto
  show ?case
  proof (cases "parse_cmd getenv cmd")
    case (Pair e1 rc)
    show ?thesis
    proof (cases rc)
      case None
      with Pair t2 show ?thesis by simp
    next
      case (Some c)
      with Pair have c: "parse_cmd getenv cmd = (e1, Some c)" by simp
      from "2.IH" [OF c [symmetric] refl refl rest] c t2
      show ?thesis by (simp add: Let_def)
    qed
  qed
qed

lemma parse_line_toks:
  assumes "toks_from PIPE (strtok_r PIPE s1) = toks_from PIPE (strtok_r PIPE s2)"
  shows "parse_line g s1 = parse_line g s2"
proof (cases "strtok_r PIPE s1")
  case None
  with assms have "toks_from PIPE (strtok_r PIPE s2) = []" by simp
  then have "strtok_r PIPE s2 = None" by (simp only: toks_from_Nil_iff)
  with None show ?thesis by (simp add: parse_line_def)
next
  case (Some p1)
  then have "toks_from PIPE (strtok_r PIPE s1) \<noteq> []" by (simp add: toks_from_Nil_iff)
  with assms have "toks_from PIPE (strtok_r PIPE s2) \<noteq> []" by simp
  then have "strtok_r PIPE s2 \<noteq> None" by (simp only: toks_from_Nil_iff) simp
  then obtain p2 where s2: "strtok_r PIPE s2 = Some p2" by auto
  from parse_line_loop_toks [OF assms, of g "\<lparr>n_commands = 0, commands = []\<rparr>"] Some s2
  show ?thesis
    by (cases p1, cases p2) (simp add: parse_line_def)
qed

lemma segments_append: "segments d (u @ d # v) = segments d u @ segments d v"
proof (induction u)
  case Nil
  show ?case by simp
next
  case (Cons x u)
  obtain y ys where s: "segments d u = y # ys"
    using segments_not_Nil [of d u] by (cases "segments d u") auto
  with Cons show ?case by simp
qed

lemma toks_collapse:
  "toks_from [d] (strtok_r [d] (u @ d # d # v)) = toks_from [d] (strtok_r [d] (u @ d # v))"
  by (simp add: toks_from_segments segments_append)

section \<open>The claims\<close>

text \<open>
  C1 (as amended). A token whose first character is \<^verbatim>\<open>$\<close> is replaced by the value of the
  named environment variable, or by the empty string if the variable is unset, and the
  result is appended as a plain argument even when it is empty: the argument count grows
  by one and the redirections are untouched. A command made of the single token
  \<^verbatim>\<open>$name\<close> therefore parses to exactly one argument: with \<^verbatim>\<open>X\<close> unset the token
  \<^verbatim>\<open>$X\<close> contributes the argument \<^verbatim>\<open>""\<close>, with \<^verbatim>\<open>X=5\<close> the argument \<^verbatim>\<open>"5"\<close>.
\<close>

theorem C1_substitution_appends_value:
  "(args_terminated result \<longrightarrow>
      (\<exists>r'. parse_token getenv result (CHR ''$'' # name) = Inr r'
         \<and> n_args r' = Suc (n_args result)
         \<and> map str_of (take (n_args r') (args r'))
             = map str_of (take (n_args result) (args result))
               @ [case getenv name of None \<Rightarrow> [] | Some v \<Rightarrow> v]
         \<and> args_terminated r'
         \<and> in_pathname r' = in_pathname result
         \<and> out_pathname r' = out_pathname result))
   \<and> (set name \<inter> set BLANKS = {} \<longrightarrow>
        parse_cmd getenv (CHR ''$'' # name) =
          ([], Some \<lparr>n_args = 1,
                     args = [Str (case getenv name of None \<Rightarrow> [] | Some v \<Rightarrow> v), Null],
                     out_pathname = None, in_pathname = None\<rparr>))"
proof (intro conjI impI)
  assume t: "args_terminated result"
  let ?v = "case getenv name of None \<Rightarrow> [] | Some v \<Rightarrow> v"
  let ?a = "my_realloc (args result) (n_args result + 2)"
  let ?r' = "result\<lparr>args := ?a[n_args result := Str ?v, Suc (n_args result) := Null],
                    n_args := Suc (n_args result)\<rparr>"
  have eq: "parse_token getenv result (CHR ''$'' # name) = Inr ?r'"
    by (rule parse_token_dollar)
  from t have le: "n_args result \<le> length (args result)" by (simp add: args_terminated_def)
  have "take (Suc (n_args result)) (?a[n_args result := Str ?v, Suc (n_args result) := Null])
          = take (n_args result) ?a @ [Str ?v]"
    by (simp add: take_Suc_conv_app_nth)
  also have "take (n_args result) ?a = take (n_args result) (args result)"
    using le by (simp add: take_my_realloc)
  finally have tk: "map str_of (take (n_args ?r') (args ?r'))
      = map str_of (take (n_args result) (args result)) @ [?v]"
    by (simp add: str_of_def)
  from parse_token_inv [OF t eq] have "args_terminated ?r'" .
  with eq tk
  show "\<exists>r'. parse_token getenv result (CHR ''$'' # name) = Inr r'
         \<and> n_args r' = Suc (n_args result)
         \<and> map str_of (take (n_args r') (args r'))
             = map str_of (take (n_args result) (args result)) @ [?v]
         \<and> args_terminated r'
         \<and> in_pathname r' = in_pathname result
         \<and> out_pathname r' = out_pathname result"
    by (intro exI [of _ ?r']) simp
next
  assume b: "set name \<inter> set BLANKS = {}"
  have "CHR ''$'' \<notin> set BLANKS" by (simp add: BLANKS_def)
  with b have "set (CHR ''$'' # name) \<inter> set BLANKS = {}" by simp
  then have tok: "strtok_r BLANKS (CHR ''$'' # name) = Some (CHR ''$'' # name, [])"
    by (rule strtok_r_single) simp
  show "parse_cmd getenv (CHR ''$'' # name) =
          ([], Some \<lparr>n_args = 1,
                     args = [Str (case getenv name of None \<Rightarrow> [] | Some v \<Rightarrow> v), Null],
                     out_pathname = None, in_pathname = None\<rparr>)"
    by (simp add: parse_cmd_def tok parse_token_dollar strtok_r_Nil empty_command_def
                  my_realloc_def)
qed

theorem C1_substitution_appends_value_witness:
  "args_terminated empty_command
   \<and> parse_token unset_env empty_command ''$X'' =
       Inr \<lparr>n_args = 1, args = [Str [], Null], out_pathname = None, in_pathname = None\<rparr>
   \<and> set ''X'' \<inter> set BLANKS = {}
   \<and> parse_cmd unset_env ''$X'' =
       ([], Some \<lparr>n_args = 1, args = [Str [], Null], out_pathname = None, in_pathname = None\<rparr>)
   \<and> parse_cmd x5_env ''$X'' =
       ([], Some \<lparr>n_args = 1, args = [Str ''5'', Null], out_pathname = None, in_pathname = None\<rparr>)"
proof -
  have b: "set ''X'' \<inter> set BLANKS = {}" by (simp add: BLANKS_def)
  have t: "args_terminated empty_command" by (simp add: args_terminated_def empty_command_def)
  have tokv: "parse_token unset_env empty_command ''$X'' =
       Inr \<lparr>n_args = 1, args = [Str [], Null], out_pathname = None, in_pathname = None\<rparr>"
    by (simp add: parse_token_def first_char_def unset_env_def empty_command_def my_realloc_def)
  from C1_substitution_appends_value [of empty_command unset_env "''X''"]
       C1_substitution_appends_value [of empty_command x5_env "''X''"] b t tokv
  show ?thesis by (simp add: unset_env_def x5_env_def)
qed

text \<open>
  The claim as stated fails: with \<^verbatim>\<open>X\<close> unset, \<^verbatim>\<open>echo $X\<close> is parsed into two arguments,
  the second one the empty string, where \<^verbatim>\<open>echo\<close> alone has one.
\<close>

theorem C1_unset_variable_counterexample:
  "unset_env ''X'' = None
   \<and> parse_cmd unset_env ''echo $X'' =
       ([], Some \<lparr>n_args = 2, args = [Str ''echo'', Str [], Null],
                  out_pathname = None, in_pathname = None\<rparr>)
   \<and> parse_cmd unset_env ''echo'' =
       ([], Some \<lparr>n_args = 1, args = [Str ''echo'', Null],
                  out_pathname = None, in_pathname = None\<rparr>)"
  by code_simp

text \<open>
  C2. When the output file of the last command cannot be opened, \<^verbatim>\<open>execute_line\<close> returns
  right after \<^verbatim>\<open>perror\<close>: for \<^verbatim>\<open>a | b >out\<close> the first command has been spawned (child
  103), \<^verbatim>\<open>b\<close> is not, and no \<^verbatim>\<open>waitpid\<close> follows: the child is still among the children
  when \<^verbatim>\<open>execute\<close> returns, and the read end of the pipe (descriptor 3) is never closed.
\<close>

theorem C2_open_failure_skips_supervision:
  "execute readonly_world ''a | b >out'' init_state =
     Returned \<lparr>trace = [Sys_pipe 0 3 4, Sys_fcntl 3 0, Sys_fcntl 4 0, Sys_fork 103,
                        Sys_close 4 0, Sys_open ''out'' True (- 1), Perror ''out''],
               cwd = ''/'', children = [103]\<rparr>"
  by code_simp

text \<open>
  C3. On a parsed line the redirection check succeeds if and only if no command other
  than the first has an input redirection and no command other than the last has an
  output redirection. Otherwise it fails with exactly one message, the one of the first
  violation in the order of the check (commands from left to right, input before output),
  and \<^verbatim>\<open>execute\<close> prints that message and returns: no system call is made, so no process
  is spawned.
\<close>

theorem C3_redirection_placement:
  "parse_line (w_getenv w) line = (err, Some l) \<longrightarrow>
     ((check_redirections l = Some ([], CHECK_OK))
        = ((\<forall>j<n_commands l. j \<noteq> 0 \<longrightarrow> in_pathname (commands l ! j) = None)
           \<and> (\<forall>j<n_commands l. j \<noteq> n_commands l - 1 \<longrightarrow> out_pathname (commands l ! j) = None)))
     \<and> (\<forall>k<n_commands l.
           (\<forall>j<k. \<not> in_misplaced l j \<and> \<not> out_misplaced l j)
           \<and> (in_misplaced l k \<or> out_misplaced l k) \<longrightarrow>
           check_redirections l =
             Some ([if in_misplaced l k then msg_in_redirection else msg_out_redirection],
                   CHECK_FAILED))
     \<and> (check_redirections l \<noteq> Some ([], CHECK_OK) \<longrightarrow>
           (\<exists>msg. (msg = msg_in_redirection \<or> msg = msg_out_redirection)
                 \<and> check_redirections l = Some ([msg], CHECK_FAILED)
                 \<and> execute w line s = Returned (s\<lparr>trace := trace s @ [Stderr msg]\<rparr>)))"
proof (intro impI conjI)
  assume p: "parse_line (w_getenv w) line = (err, Some l)"
  note ok = parse_line_ok(1) [OF p]
  have "(check_redirections l = Some ([], CHECK_OK))
      = (\<forall>j. 0 \<le> j \<and> j < n_commands l \<longrightarrow> \<not> in_misplaced l j \<and> \<not> out_misplaced l j)"
    unfolding check_redirections_def by (rule check_redirections_loop_ok_iff [OF ok])
  also have "\<dots> = ((\<forall>j<n_commands l. j \<noteq> 0 \<longrightarrow> in_pathname (commands l ! j) = None)
           \<and> (\<forall>j<n_commands l. j \<noteq> n_commands l - 1 \<longrightarrow> out_pathname (commands l ! j) = None))"
    by (auto simp: in_misplaced_def out_misplaced_def)
  finally show "(check_redirections l = Some ([], CHECK_OK))
        = ((\<forall>j<n_commands l. j \<noteq> 0 \<longrightarrow> in_pathname (commands l ! j) = None)
           \<and> (\<forall>j<n_commands l. j \<noteq> n_commands l - 1 \<longrightarrow> out_pathname (commands l ! j) = None))" .
next
  assume p: "parse_line (w_getenv w) line = (err, Some l)"
  note ok = parse_line_ok(1) [OF p]
  show "\<forall>k<n_commands l.
           (\<forall>j<k. \<not> in_misplaced l j \<and> \<not> out_misplaced l j)
           \<and> (in_misplaced l k \<or> out_misplaced l k) \<longrightarrow>
           check_redirections l =
             Some ([if in_misplaced l k then msg_in_redirection else msg_out_redirection],
                   CHECK_FAILED)"
  proof (intro allI impI)
    fix k
    assume k: "k < n_commands l"
      and h: "(\<forall>j<k. \<not> in_misplaced l j \<and> \<not> out_misplaced l j)
              \<and> (in_misplaced l k \<or> out_misplaced l k)"
    from h have before: "\<forall>j. 0 \<le> j \<and> j < k \<longrightarrow> \<not> in_misplaced l j \<and> \<not> out_misplaced l j"
      and at: "in_misplaced l k \<or> out_misplaced l k"
      by simp_all
    have "0 \<le> k" by simp
    from check_redirections_loop_first [OF ok this k before at]
    show "check_redirections l =
             Some ([if in_misplaced l k then msg_in_redirection else msg_out_redirection],
                   CHECK_FAILED)"
      by (simp add: check_redirections_def)
  qed
next
  assume p: "parse_line (w_getenv w) line = (err, Some l)"
    and bad: "check_redirections l \<noteq> Some ([], CHECK_OK)"
  note ok = parse_line_ok(1) [OF p]
  from check_redirections_cases [OF ok] bad
  obtain msg where m: "msg = msg_in_redirection \<or> msg = msg_out_redirection"
    and c: "check_redirections l = Some ([msg], CHECK_FAILED)"
    by blast
  from execute_rejected_by_redirections [OF p c] m c
  show "\<exists>msg. (msg = msg_in_redirection \<or> msg = msg_out_redirection)
                 \<and> check_redirections l = Some ([msg], CHECK_FAILED)
                 \<and> execute w line s = Returned (s\<lparr>trace := trace s @ [Stderr msg]\<rparr>)"
    by blast
qed

theorem C3_redirection_placement_witness:
  "parse_line (w_getenv calm_world) ''a | b <y'' = ([], Some two_inputs_line)
   \<and> check_redirections two_inputs_line = Some ([msg_in_redirection], CHECK_FAILED)
   \<and> execute calm_world ''a | b <y'' init_state =
       Returned \<lparr>trace = [Stderr ''Parsing error: cannot have input-redirection except in the first command\<newline>''],
                 cwd = ''/'', children = []\<rparr>"
proof -
  have p: "parse_line (w_getenv calm_world) ''a | b <y'' = ([], Some two_inputs_line)"
    by code_simp
  have c: "check_redirections two_inputs_line = Some ([msg_in_redirection], CHECK_FAILED)"
    by code_simp
  then have bad: "check_redirections two_inputs_line \<noteq> Some ([], CHECK_OK)" by simp
  from C3_redirection_placement [of calm_world "''a | b <y''" "[]" two_inputs_line init_state]
       p bad
  obtain msg where "check_redirections two_inputs_line = Some ([msg], CHECK_FAILED)"
    and x: "execute calm_world ''a | b <y'' init_state
            = Returned (init_state\<lparr>trace := trace init_state @ [Stderr msg]\<rparr>)"
    by blast
  with c have "msg = msg_in_redirection" by simp
  with x have "execute calm_world ''a | b <y'' init_state =
       Returned \<lparr>trace = [Stderr ''Parsing error: cannot have input-redirection except in the first command\<newline>''],
                 cwd = ''/'', children = []\<rparr>"
    by (simp add: init_state_def msg_in_redirection_def)
  with p c show ?thesis by blast
qed

text \<open>
  C4. On a parsed line the built-in check fails with \<^verbatim>\<open>cannot have CD in pipe\<close> whenever a
  command other than the first is \<^verbatim>\<open>cd\<close>; when the first command is \<^verbatim>\<open>cd\<close> it succeeds
  exactly when that command is the only one, has no input and no output redirection and
  has exactly 2 argument tokens; with no \<^verbatim>\<open>cd\<close> at all it succeeds; and a failure always
  comes with one message. The line \<^verbatim>\<open>a | cd /tmp\<close> is rejected with the
  \<^verbatim>\<open>cannot have CD in pipe\<close> message and \<^verbatim>\<open>cd a b\<close> with the
  \<^verbatim>\<open>more than one argument\<close> message, and nothing else happens.
\<close>

theorem C4_cd_placement:
  "(parse_line (w_getenv w) line = (err, Some l) \<longrightarrow>
      ((\<exists>j. 1 \<le> j \<and> j < n_commands l \<and> is_cd l j) \<longrightarrow>
         check_cd l = Some ([''Parsing error: cannot have CD in pipe\<newline>''], CHECK_FAILED))
      \<and> (is_cd l 0 \<longrightarrow>
           ((\<exists>e. check_cd l = Some (e, CHECK_OK))
              = (n_commands l = 1
                 \<and> in_pathname (commands l ! 0) = None
                 \<and> out_pathname (commands l ! 0) = None
                 \<and> n_args (commands l ! 0) = 2)))
      \<and> ((\<forall>j<n_commands l. \<not> is_cd l j) \<longrightarrow> check_cd l = Some ([], CHECK_OK))
      \<and> (check_cd l = Some ([], CHECK_OK) \<or> (\<exists>msg. check_cd l = Some ([msg], CHECK_FAILED))))
   \<and> execute w ''a | cd /tmp'' s =
        Returned (s\<lparr>trace := trace s @ [Stderr ''Parsing error: cannot have CD in pipe\<newline>'']\<rparr>)
   \<and> execute w ''cd a b'' s =
        Returned (s\<lparr>trace := trace s
           @ [Stderr ''Parsing error: cannot have more than one argument with CD\<newline>'']\<rparr>)"
proof (intro conjI impI)
  assume p: "parse_line (w_getenv w) line = (err, Some l)"
    and ex: "\<exists>j. 1 \<le> j \<and> j < n_commands l \<and> is_cd l j"
  from parse_line_ok(1) [OF p] ex
  show "check_cd l = Some ([''Parsing error: cannot have CD in pipe\<newline>''], CHECK_FAILED)"
    by (rule check_cd_in_pipe)
next
  assume p: "parse_line (w_getenv w) line = (err, Some l)" and cd: "is_cd l 0"
  note ok = parse_line_ok(1) [OF p] and pos = parse_line_ok(3) [OF p]
  from cd have a0: "str_at (args (commands l ! 0)) 0 = Some CD" by (simp add: is_cd_def)
  show "(\<exists>e. check_cd l = Some (e, CHECK_OK))
              = (n_commands l = 1
                 \<and> in_pathname (commands l ! 0) = None
                 \<and> out_pathname (commands l ! 0) = None
                 \<and> n_args (commands l ! 0) = 2)"
  proof
    assume "\<exists>e. check_cd l = Some (e, CHECK_OK)"
    then obtain e where c: "check_cd l = Some (e, CHECK_OK)" ..
    from check_cd_ok_first_cd [OF ok pos c a0]
    show "n_commands l = 1
                 \<and> in_pathname (commands l ! 0) = None
                 \<and> out_pathname (commands l ! 0) = None
                 \<and> n_args (commands l ! 0) = 2"
      by simp
  next
    assume "n_commands l = 1
                 \<and> in_pathname (commands l ! 0) = None
                 \<and> out_pathname (commands l ! 0) = None
                 \<and> n_args (commands l ! 0) = 2"
    then have "check_cd l = Some ([], CHECK_OK)"
      using check_cd_sole [OF ok _ cd] by simp
    then show "\<exists>e. check_cd l = Some (e, CHECK_OK)" ..
  qed
next
  assume p: "parse_line (w_getenv w) line = (err, Some l)"
    and none: "\<forall>j<n_commands l. \<not> is_cd l j"
  from parse_line_ok(1) [OF p] parse_line_ok(3) [OF p] none
  show "check_cd l = Some ([], CHECK_OK)" by (rule check_cd_no_cd)
next
  assume p: "parse_line (w_getenv w) line = (err, Some l)"
  from parse_line_ok(1) [OF p] parse_line_ok(3) [OF p]
  show "check_cd l = Some ([], CHECK_OK) \<or> (\<exists>msg. check_cd l = Some ([msg], CHECK_FAILED))"
    by (rule check_cd_cases)
next
  have p: "parse_line (w_getenv w) ''a | cd /tmp'' = ([], Some a_cd_tmp_line)"
    by (simp add: parse_line_def parse_cmd_def strtok_r_def PIPE_def BLANKS_def
          parse_token_def first_char_def my_realloc_def empty_command_def a_cd_tmp_line_def)
  have r: "check_redirections a_cd_tmp_line = Some ([], CHECK_OK)"
    by (simp add: check_redirections_def check_redirections_loop.simps nth_opt_def
          a_cd_tmp_line_def)
  have c: "check_cd a_cd_tmp_line
             = Some ([''Parsing error: cannot have CD in pipe\<newline>''], CHECK_FAILED)"
    by (simp add: check_cd_def cd_in_pipe_loop.simps nth_opt_def str_at_def CD_def
          a_cd_tmp_line_def)
  from p r c show "execute w ''a | cd /tmp'' s =
        Returned (s\<lparr>trace := trace s @ [Stderr ''Parsing error: cannot have CD in pipe\<newline>'']\<rparr>)"
    by (rule execute_rejected_by_cd)
next
  have p: "parse_line (w_getenv w) ''cd a b'' = ([], Some cd_a_b_line)"
    by (simp add: parse_line_def parse_cmd_def strtok_r_def PIPE_def BLANKS_def
          parse_token_def first_char_def my_realloc_def empty_command_def cd_a_b_line_def)
  have r: "check_redirections cd_a_b_line = Some ([], CHECK_OK)"
    by (simp add: check_redirections_def check_redirections_loop.simps nth_opt_def
          cd_a_b_line_def)
  have c: "check_cd cd_a_b_line
             = Some ([''Parsing error: cannot have more than one argument with CD\<newline>''],
                     CHECK_FAILED)"
    by (simp add: check_cd_def cd_in_pipe_loop.simps nth_opt_def str_at_def CD_def
          cd_a_b_line_def)
  from p r c show "execute w ''cd a b'' s =
        Returned (s\<lparr>trace := trace s
           @ [Stderr ''Parsing error: cannot have more than one argument with CD\<newline>'']\<rparr>)"
    by (rule execute_rejected_by_cd)
qed

theorem C4_cd_placement_witness:
  "parse_line (w_getenv calm_world) ''a | cd /tmp'' = ([], Some a_cd_tmp_line)
   \<and> is_cd a_cd_tmp_line 1
   \<and> check_cd a_cd_tmp_line
       = Some ([''Parsing error: cannot have CD in pipe\<newline>''], CHECK_FAILED)
   \<and> parse_line (w_getenv calm_world) ''cd /tmp'' = ([], Some cd_tmp_line)
   \<and> is_cd cd_tmp_line 0
   \<and> check_cd cd_tmp_line = Some ([], CHECK_OK)
   \<and> parse_line (w_getenv calm_world) ''cd a b'' = ([], Some cd_a_b_line)
   \<and> is_cd cd_a_b_line 0
   \<and> check_cd cd_a_b_line \<noteq> Some ([], CHECK_OK)"
proof -
  have p1: "parse_line (w_getenv calm_world) ''a | cd /tmp'' = ([], Some a_cd_tmp_line)"
    by code_simp
  have i1: "is_cd a_cd_tmp_line 1" by code_simp
  have j1: "1 \<le> (1::nat) \<and> 1 < n_commands a_cd_tmp_line \<and> is_cd a_cd_tmp_line 1"
    using i1 by (simp add: a_cd_tmp_line_def)
  from C4_cd_placement [of calm_world "''a | cd /tmp''" "[]" a_cd_tmp_line init_state] p1 j1
  have c1: "check_cd a_cd_tmp_line
       = Some ([''Parsing error: cannot have CD in pipe\<newline>''], CHECK_FAILED)"
    by blast
  have p2: "parse_line (w_getenv calm_world) ''cd /tmp'' = ([], Some cd_tmp_line)"
    by code_simp
  have i2: "is_cd cd_tmp_line 0" by code_simp
  have s2: "n_commands cd_tmp_line = 1
                 \<and> in_pathname (commands cd_tmp_line ! 0) = None
                 \<and> out_pathname (commands cd_tmp_line ! 0) = None
                 \<and> n_args (commands cd_tmp_line ! 0) = 2"
    by (simp add: cd_tmp_line_def)
  from C4_cd_placement [of calm_world "''cd /tmp''" "[]" cd_tmp_line init_state] p2 i2 s2
  have "\<exists>e. check_cd cd_tmp_line = Some (e, CHECK_OK)" by blast
  moreover from C4_cd_placement [of calm_world "''cd /tmp''" "[]" cd_tmp_line init_state] p2
  have "check_cd cd_tmp_line = Some ([], CHECK_OK)
        \<or> (\<exists>msg. check_cd cd_tmp_line = Some ([msg], CHECK_FAILED))"
    by blast
  ultimately have c2: "check_cd cd_tmp_line = Some ([], CHECK_OK)" by auto
  have p3: "parse_line (w_getenv calm_world) ''cd a b'' = ([], Some cd_a_b_line)"
    by code_simp
  have i3: "is_cd cd_a_b_line 0" by code_simp
  have s3: "n_args (commands cd_a_b_line ! 0) \<noteq> 2" by (simp add: cd_a_b_line_def)
  from C4_cd_placement [of calm_world "''cd a b''" "[]" cd_a_b_line init_state] p3 i3 s3
  have c3: "check_cd cd_a_b_line \<noteq> Some ([], CHECK_OK)" by blast
  from p1 i1 c1 p2 i2 c2 p3 i3 c3 show ?thesis by blast
qed

text \<open>
  C5. The supervision loop waits for every child in turn and returns once \<^verbatim>\<open>waitpid\<close>
  finds none left (the call that fails with \<^verbatim>\<open>ECHILD\<close> is the last event; the function has
  no fatal exit). For a child that exited with a status other than zero it prints the line
  \<^verbatim>\<open>Child with PID <pid> exited with status <status>.\<close>, for a child killed by a signal the
  line \<^verbatim>\<open>Child with PID <pid> was killed by signal <num> (<name>).\<close>, and nothing for a child
  that exited with status zero.
\<close>

theorem C5_supervisor_reports:
  "((\<forall>p\<in>set (children s). 0 < p) \<longrightarrow>
      wait_for_children w s = s\<lparr>trace := trace s @ supervised w (children s), children := []\<rparr>)
   \<and> (st \<noteq> 0 \<longrightarrow>
        report_child w pid (Exited st) s =
          log (Stdout (''Child with PID '' @ show_int pid @ '' exited with status ''
                       @ show_nat st @ ''.\<newline>'')) s)
   \<and> report_child w pid (Signaled n) s =
        log (Stdout (''Child with PID '' @ show_int pid @ '' was killed by signal ''
                     @ show_nat n @ '' ('' @ w_strsignal w n @ '').\<newline>'')) s
   \<and> report_child w pid (Exited 0) s = s
   \<and> (children s = [] \<longrightarrow> wait_for_children w s = log (Sys_waitpid (- 1)) s)"
proof (intro conjI impI)
  assume "\<forall>p\<in>set (children s). 0 < p"
  then show "wait_for_children w s = s\<lparr>trace := trace s @ supervised w (children s), children := []\<rparr>"
    by (rule wait_for_children_trace)
next
  assume "st \<noteq> 0"
  then show "report_child w pid (Exited st) s =
          log (Stdout (''Child with PID '' @ show_int pid @ '' exited with status ''
                       @ show_nat st @ ''.\<newline>'')) s"
    by (simp add: report_child_def)
next
  show "report_child w pid (Signaled n) s =
        log (Stdout (''Child with PID '' @ show_int pid @ '' was killed by signal ''
                     @ show_nat n @ '' ('' @ w_strsignal w n @ '').\<newline>'')) s"
    by (simp add: report_child_def)
next
  show "report_child w pid (Exited 0) s = s" by (simp add: report_child_def)
next
  assume "children s = []"
  then show "wait_for_children w s = log (Sys_waitpid (- 1)) s"
    by (subst wait_for_children.simps) (simp add: sys_waitpid_def)
qed

theorem C5_supervisor_reports_witness:
  "wait_for_children rough_world three_children =
     \<lparr>trace = [Sys_waitpid 4242,
               Stdout ''Child with PID 4242 exited with status 3.\<newline>'',
               Sys_waitpid 4243,
               Stdout ''Child with PID 4243 was killed by signal 9 (Killed).\<newline>'',
               Sys_waitpid 4244,
               Sys_waitpid (- 1)],
      cwd = ''/'', children = []\<rparr>
   \<and> report_child rough_world 4242 (Exited 3) init_state =
       \<lparr>trace = [Stdout ''Child with PID 4242 exited with status 3.\<newline>''],
        cwd = ''/'', children = []\<rparr>
   \<and> wait_for_children rough_world init_state =
       \<lparr>trace = [Sys_waitpid (- 1)], cwd = ''/'', children = []\<rparr>"
proof -
  have pos: "\<forall>p\<in>set (children three_children). 0 < p"
    by (simp add: three_children_def)
  have nz: "(3::nat) \<noteq> 0" by simp
  have e: "children init_state = []" by (simp add: init_state_def)
  have sup: "supervised rough_world (children three_children) =
     [Sys_waitpid 4242,
               Stdout ''Child with PID 4242 exited with status 3.\<newline>'',
               Sys_waitpid 4243,
               Stdout ''Child with PID 4243 was killed by signal 9 (Killed).\<newline>'',
               Sys_waitpid 4244,
               Sys_waitpid (- 1)]"
    by code_simp
  have m: "''Child with PID '' @ show_int 4242 @ '' exited with status '' @ show_nat 3 @ ''.\<newline>''
           = ''Child with PID 4242 exited with status 3.\<newline>''"
    by code_simp
  note c5 = C5_supervisor_reports [of three_children rough_world 3 4242 9]
  from c5 pos have "wait_for_children rough_world three_children =
      three_children\<lparr>trace := trace three_children @ supervised rough_world (children three_children),
                      children := []\<rparr>"
    by blast
  then have a: "wait_for_children rough_world three_children =
     \<lparr>trace = [Sys_waitpid 4242,
               Stdout ''Child with PID 4242 exited with status 3.\<newline>'',
               Sys_waitpid 4243,
               Stdout ''Child with PID 4243 was killed by signal 9 (Killed).\<newline>'',
               Sys_waitpid 4244,
               Sys_waitpid (- 1)],
      cwd = ''/'', children = []\<rparr>"
    unfolding sup by (simp add: three_children_def)
  note c5' = C5_supervisor_reports [of init_state rough_world 3 4242 9]
  from c5' nz have "report_child rough_world 4242 (Exited 3) init_state =
          log (Stdout (''Child with PID '' @ show_int 4242 @ '' exited with status ''
                       @ show_nat 3 @ ''.\<newline>'')) init_state"
    by blast
  then have b: "report_child rough_world 4242 (Exited 3) init_state =
       \<lparr>trace = [Stdout ''Child with PID 4242 exited with status 3.\<newline>''],
        cwd = ''/'', children = []\<rparr>"
    unfolding m by (simp add: init_state_def log_def)
  from c5' e have "wait_for_children rough_world init_state = log (Sys_waitpid (- 1)) init_state"
    by blast
  then have c: "wait_for_children rough_world init_state =
       \<lparr>trace = [Sys_waitpid (- 1)], cwd = ''/'', children = []\<rparr>"
    by (simp add: init_state_def log_def)
  from a b c show ?thesis by blast
qed

text \<open>
  C6. For every line that parses successfully, the number of commands of the resulting
  line equals the number of segments between pipe characters that contain at least one
  token.
\<close>

theorem C6_commands_count_segments:
  "parse_line getenv line = (err, Some l) \<longrightarrow>
     n_commands l = length (filter contains_token (segments (CHR ''|'') line))"
proof
  assume p: "parse_line getenv line = (err, Some l)"
  then obtain cmd saveptr where t: "strtok_r PIPE line = Some (cmd, saveptr)"
    and loop: "parse_line_loop getenv \<lparr>n_commands = 0, commands = []\<rparr> (Some (cmd, saveptr))
                 = (err, Some l)"
    by (auto simp: parse_line_def split: option.splits)
  from parse_line_loop_count [OF loop] t
  have n: "n_commands l = length (toks_from PIPE (strtok_r PIPE line))"
    and all: "\<forall>x\<in>set (toks_from PIPE (strtok_r PIPE line)). contains_token x"
    by simp_all
  have ts: "toks_from PIPE (strtok_r PIPE line)
              = filter (\<lambda>x. x \<noteq> []) (segments (CHR ''|'') line)"
    unfolding PIPE_def by (rule toks_from_segments)
  from all have "filter contains_token (segments (CHR ''|'') line)
                   = filter (\<lambda>x. x \<noteq> []) (segments (CHR ''|'') line)"
    unfolding ts by (rule filter_tokens)
  with n ts show "n_commands l = length (filter contains_token (segments (CHR ''|'') line))"
    by simp
qed

theorem C6_commands_count_segments_witness:
  "parse_line unset_env ''a||b |c d'' = ([], Some three_commands_line)
   \<and> segments (CHR ''|'') ''a||b |c d'' = [''a'', '''', ''b '', ''c d'']
   \<and> filter contains_token [''a'', '''', ''b '', ''c d''] = [''a'', ''b '', ''c d'']
   \<and> n_commands three_commands_line = 3"
proof -
  have p: "parse_line unset_env ''a||b |c d'' = ([], Some three_commands_line)"
    by code_simp
  have s: "segments (CHR ''|'') ''a||b |c d'' = [''a'', '''', ''b '', ''c d'']"
    by simp
  have f: "filter contains_token [''a'', '''', ''b '', ''c d''] = [''a'', ''b '', ''c d'']"
    by (simp add: contains_token_def BLANKS_def)
  from C6_commands_count_segments [of unset_env "''a||b |c d''" "[]" three_commands_line] p
  have "n_commands three_commands_line
          = length (filter contains_token (segments (CHR ''|'') ''a||b |c d''))"
    by blast
  with s f have "n_commands three_commands_line = 3" by simp
  with p s f show ?thesis by blast
qed

text \<open>
  C7. When the first command of a parsed line that passes \<^verbatim>\<open>check_cd\<close> is \<^verbatim>\<open>cd\<close>, it is
  the only command, and \<^verbatim>\<open>execute_line\<close> does one \<^verbatim>\<open>chdir\<close> to its argument and returns:
  no \<^verbatim>\<open>fork\<close>, no \<^verbatim>\<open>waitpid\<close>. If the call fails, \<^verbatim>\<open>perror\<close> reports it, the function
  still returns and the working directory is what it was.
\<close>

theorem C7_cd_runs_in_process:
  "(parse_line getenv line = (err, Some l) \<and> check_cd l = Some (e, CHECK_OK)
      \<and> str_at (args (commands l ! 0)) 0 = Some CD \<longrightarrow>
      n_commands l = 1
      \<and> (\<exists>newdir. str_at (args (commands l ! 0)) 1 = Some newdir
            \<and> execute_line w l s =
                Returned (case w_chdir w (trace s) (cwd s) newdir of
                            Some d \<Rightarrow> s\<lparr>trace := trace s @ [Sys_chdir newdir 0], cwd := d\<rparr>
                          | None \<Rightarrow> s\<lparr>trace := trace s @ [Sys_chdir newdir (- 1),
                                          Perror ''error in change directory'']\<rparr>)))
   \<and> execute w ''cd /tmp'' s =
       Returned (case w_chdir w (trace s) (cwd s) ''/tmp'' of
                   Some d \<Rightarrow> s\<lparr>trace := trace s @ [Sys_chdir ''/tmp'' 0], cwd := d\<rparr>
                 | None \<Rightarrow> s\<lparr>trace := trace s @ [Sys_chdir ''/tmp'' (- 1),
                                 Perror ''error in change directory'']\<rparr>)"
proof (intro conjI impI)
  assume h: "parse_line getenv line = (err, Some l) \<and> check_cd l = Some (e, CHECK_OK)
      \<and> str_at (args (commands l ! 0)) 0 = Some CD"
  then have p: "parse_line getenv line = (err, Some l)"
    and c: "check_cd l = Some (e, CHECK_OK)"
    and a0: "str_at (args (commands l ! 0)) 0 = Some CD"
    by simp_all
  note ok = parse_line_ok(1) [OF p] and pos = parse_line_ok(3) [OF p]
  note cd = check_cd_ok_first_cd [OF ok pos c a0]
  show "n_commands l = 1" by (rule cd(1))
  from pos have z: "0 < n_commands l" by simp
  from line_ok_nth [OF ok z]
  have n: "nth_opt (commands l) 0 = Some (commands l ! 0)"
    and cok: "command_ok (commands l ! 0)" .
  from cd(2) have "1 < n_args (commands l ! 0)" by simp
  from command_ok_str_at [OF cok this]
  obtain newdir where d: "str_at (args (commands l ! 0)) 1 = Some newdir" ..
  from d have d': "str_at (args (commands l ! 0)) (Suc 0) = Some newdir" by simp
  have "execute_line w l s = Returned (change_current_directory w newdir s)"
    by (simp add: execute_line_def n a0 cd(1) cd(2) d')
  with d show "\<exists>newdir. str_at (args (commands l ! 0)) 1 = Some newdir
            \<and> execute_line w l s =
                Returned (case w_chdir w (trace s) (cwd s) newdir of
                            Some d \<Rightarrow> s\<lparr>trace := trace s @ [Sys_chdir newdir 0], cwd := d\<rparr>
                          | None \<Rightarrow> s\<lparr>trace := trace s @ [Sys_chdir newdir (- 1),
                                          Perror ''error in change directory'']\<rparr>)"
    by (simp add: change_current_directory_result)
next
  have p: "parse_line (w_getenv w) ''cd /tmp'' = ([], Some cd_tmp_line)"
    by (simp add: parse_line_def parse_cmd_def strtok_r_def PIPE_def BLANKS_def
          parse_token_def first_char_def my_realloc_def empty_command_def cd_tmp_line_def)
  have r: "check_redirections cd_tmp_line = Some ([], CHECK_OK)"
    by (simp add: check_redirections_def check_redirections_loop.simps nth_opt_def
          cd_tmp_line_def)
  have c: "check_cd cd_tmp_line = Some ([], CHECK_OK)"
    by (simp add: check_cd_def cd_in_pipe_loop.simps nth_opt_def str_at_def CD_def
          cd_tmp_line_def)
  have x: "execute_line w cd_tmp_line s = Returned (change_current_directory w ''/tmp'' s)"
    by (simp add: execute_line_def nth_opt_def str_at_def CD_def cd_tmp_line_def)
  show "execute w ''cd /tmp'' s =
       Returned (case w_chdir w (trace s) (cwd s) ''/tmp'' of
                   Some d \<Rightarrow> s\<lparr>trace := trace s @ [Sys_chdir ''/tmp'' 0], cwd := d\<rparr>
                 | None \<Rightarrow> s\<lparr>trace := trace s @ [Sys_chdir ''/tmp'' (- 1),
                                 Perror ''error in change directory'']\<rparr>)"
    by (simp add: execute_def p r c x print_stderr_def change_current_directory_result)
qed

theorem C7_cd_runs_in_process_witness:
  "parse_line unset_env ''cd /tmp'' = ([], Some cd_tmp_line)
   \<and> check_cd cd_tmp_line = Some ([], CHECK_OK)
   \<and> str_at (args (commands cd_tmp_line ! 0)) 0 = Some CD
   \<and> execute_line locked_world cd_tmp_line init_state =
       Returned \<lparr>trace = [Sys_chdir ''/tmp'' (- 1), Perror ''error in change directory''],
                 cwd = ''/'', children = []\<rparr>
   \<and> execute_line calm_world cd_tmp_line init_state =
       Returned \<lparr>trace = [Sys_chdir ''/tmp'' 0], cwd = ''/tmp'', children = []\<rparr>"
proof -
  have p: "parse_line unset_env ''cd /tmp'' = ([], Some cd_tmp_line)" by code_simp
  have c: "check_cd cd_tmp_line = Some ([], CHECK_OK)" by code_simp
  have a: "str_at (args (commands cd_tmp_line ! 0)) 0 = Some CD" by code_simp
  have d: "str_at (args (commands cd_tmp_line ! 0)) 1 = Some ''/tmp''" by code_simp
  from C7_cd_runs_in_process [of unset_env "''cd /tmp''" "[]" cd_tmp_line "[]" locked_world init_state]
       p c a d
  have x: "execute_line locked_world cd_tmp_line init_state =
       Returned \<lparr>trace = [Sys_chdir ''/tmp'' (- 1), Perror ''error in change directory''],
                 cwd = ''/'', children = []\<rparr>"
    by (auto simp: locked_world_def calm_world_def init_state_def)
  from C7_cd_runs_in_process [of unset_env "''cd /tmp''" "[]" cd_tmp_line "[]" calm_world init_state]
       p c a d
  have y: "execute_line calm_world cd_tmp_line init_state =
       Returned \<lparr>trace = [Sys_chdir ''/tmp'' 0], cwd = ''/tmp'', children = []\<rparr>"
    by (auto simp: calm_world_def init_state_def)
  from p c a x y show ?thesis by blast
qed


text \<open>
  C8. Parsing an empty line produces no pipeline and is not an error: \<^verbatim>\<open>parse_line\<close>
  returns the null pointer and prints nothing, and \<^verbatim>\<open>execute\<close> returns with the state
  of the process as it was: nothing printed, no validator run, no system call made.
\<close>

theorem C8_empty_line_is_skipped:
  "parse_line getenv [] = ([], None) \<and> execute w [] s = Returned s"
  by (simp add: parse_line_def strtok_r_def execute_def print_stderr_def)

text \<open>
  C9. A command returned by \<^verbatim>\<open>parse_cmd\<close> has at least one argument, a null cell at index
  \<^verbatim>\<open>n_args\<close> and strings in the cells before it, so that the vector \<^verbatim>\<open>execvp\<close> reads is
  exactly these \<^verbatim>\<open>n_args\<close> strings; a line returned by \<^verbatim>\<open>parse_line\<close> has at least one
  command, all of this shape. Consequently neither validator nor \<^verbatim>\<open>execute_line\<close> reads
  outside an array or through a null or uninitialised pointer on a parsed line, and
  \<^verbatim>\<open>execute\<close> never does on any line.
\<close>

theorem C9_parsed_commands_well_formed:
  "(parse_cmd getenv cmdstr = (err, Some c) \<longrightarrow>
      1 \<le> n_args c
      \<and> nth_opt (args c) (n_args c) = Some Null
      \<and> list_all is_Str (take (n_args c) (args c))
      \<and> argv_of (args c) = Some (map str_of (take (n_args c) (args c))))
   \<and> (parse_line getenv line = (err', Some l) \<longrightarrow>
      1 \<le> n_commands l
      \<and> length (commands l) = n_commands l
      \<and> list_all command_ok (commands l)
      \<and> check_redirections l \<noteq> None
      \<and> check_cd l \<noteq> None
      \<and> execute_line w l s \<noteq> Undefined_behaviour)
   \<and> execute w line' s' \<noteq> Undefined_behaviour"
proof (intro conjI impI)
  assume p: "parse_cmd getenv cmdstr = (err, Some c)"
  from parse_cmd_ok(1) [OF p] have ok: "command_ok c" .
  then show "1 \<le> n_args c" by (simp add: command_ok_def)
  from ok show "nth_opt (args c) (n_args c) = Some Null"
    by (auto simp: command_ok_def args_terminated_def)
  from ok show "list_all is_Str (take (n_args c) (args c))"
    by (simp add: command_ok_def args_terminated_def)
  from ok show "argv_of (args c) = Some (map str_of (take (n_args c) (args c)))"
    by (rule command_ok_argv)
next
  assume p: "parse_line getenv line = (err', Some l)"
  note ok = parse_line_ok(1) [OF p] and pos = parse_line_ok(3) [OF p]
  show "1 \<le> n_commands l" by (rule pos)
  from ok show "length (commands l) = n_commands l" by (simp add: line_ok_def)
  from ok show "list_all command_ok (commands l)" by (simp add: line_ok_def)
  from check_redirections_loop_defined [OF ok, of 0]
  show "check_redirections l \<noteq> None" by (simp add: check_redirections_def)
  show "check_cd l \<noteq> None" using ok pos by (rule check_cd_defined)
  show "execute_line w l s \<noteq> Undefined_behaviour" using ok pos by (rule execute_line_not_ub)
next
  show "execute w line' s' \<noteq> Undefined_behaviour" by (rule execute_not_ub)
qed

theorem C9_parsed_commands_well_formed_witness:
  "parse_cmd (\<lambda>name. None) ''ls -l >out'' =
     ([], Some \<lparr>n_args = 2, args = [Str ''ls'', Str ''-l'', Null, Junk],
                out_pathname = Some ''out'', in_pathname = None\<rparr>)
   \<and> argv_of [Str ''ls'', Str ''-l'', Null, Junk] = Some [''ls'', ''-l'']
   \<and> parse_line (\<lambda>name. None) ''ls | wc'' =
     ([], Some \<lparr>n_commands = 2,
                commands = [\<lparr>n_args = 1, args = [Str ''ls'', Null],
                              out_pathname = None, in_pathname = None\<rparr>,
                            \<lparr>n_args = 1, args = [Str ''wc'', Null],
                              out_pathname = None, in_pathname = None\<rparr>]\<rparr>)
   \<and> execute_line calm_world
        \<lparr>n_commands = 2,
          commands = [\<lparr>n_args = 1, args = [Str ''ls'', Null],
                        out_pathname = None, in_pathname = None\<rparr>,
                      \<lparr>n_args = 1, args = [Str ''wc'', Null],
                        out_pathname = None, in_pathname = None\<rparr>]\<rparr> init_state
       \<noteq> Undefined_behaviour"
proof -
  let ?c = "\<lparr>n_args = 2, args = [Str ''ls'', Str ''-l'', Null, Junk],
             out_pathname = Some ''out'', in_pathname = None\<rparr>"
  let ?l = "\<lparr>n_commands = 2,
              commands = [\<lparr>n_args = 1, args = [Str ''ls'', Null],
                            out_pathname = None, in_pathname = None\<rparr>,
                          \<lparr>n_args = 1, args = [Str ''wc'', Null],
                            out_pathname = None, in_pathname = None\<rparr>]\<rparr>"
  have h1: "parse_cmd (\<lambda>name. None) ''ls -l >out'' = ([], Some ?c)"
    by code_simp
  have h2: "parse_line (\<lambda>name. None) ''ls | wc'' = ([], Some ?l)"
    by code_simp
  from C9_parsed_commands_well_formed
         [of "\<lambda>name. None" "''ls -l >out''" "[]" ?c "''ls | wc''" "[]" ?l calm_world init_state]
       h1 h2
  show ?thesis by (simp add: str_of_def)
qed

text \<open>
  C10. Adjacent pipe characters are collapsed: a line made of pipe characters only parses
  to no line with nothing printed, as the empty line does; doubling a pipe character
  anywhere in a line does not change what the line parses to; and \<^verbatim>\<open>a||b\<close> parses, like
  \<^verbatim>\<open>a|b\<close>, into the two commands \<^verbatim>\<open>a\<close> and \<^verbatim>\<open>b\<close> with nothing printed.
\<close>

theorem C10_adjacent_pipes_collapse:
  "parse_line getenv (replicate n (CHR ''|'')) = ([], None)
   \<and> parse_line getenv (u @ ''||'' @ v) = parse_line getenv (u @ ''|'' @ v)
   \<and> parse_line getenv ''a||b'' = ([], Some a_b_line)
   \<and> parse_line getenv ''a|b'' = ([], Some a_b_line)"
proof (intro conjI)
  have "strtok_r PIPE (replicate n (CHR ''|'')) = None"
    by (simp add: strtok_r_None_iff PIPE_def)
  then show "parse_line getenv (replicate n (CHR ''|'')) = ([], None)"
    by (simp add: parse_line_def)
next
  have "toks_from PIPE (strtok_r PIPE (u @ CHR ''|'' # CHR ''|'' # v))
          = toks_from PIPE (strtok_r PIPE (u @ CHR ''|'' # v))"
    unfolding PIPE_def by (rule toks_collapse)
  then have "parse_line getenv (u @ CHR ''|'' # CHR ''|'' # v) = parse_line getenv (u @ CHR ''|'' # v)"
    by (rule parse_line_toks)
  then show "parse_line getenv (u @ ''||'' @ v) = parse_line getenv (u @ ''|'' @ v)"
    by simp
next
  show "parse_line getenv ''a||b'' = ([], Some a_b_line)"
    by (simp add: parse_line_def parse_cmd_def strtok_r_def PIPE_def BLANKS_def
          parse_token_def first_char_def my_realloc_def empty_command_def a_b_line_def)
next
  show "parse_line getenv ''a|b'' = ([], Some a_b_line)"
    by (simp add: parse_line_def parse_cmd_def strtok_r_def PIPE_def BLANKS_def
          parse_token_def first_char_def my_realloc_def empty_command_def a_b_line_def)
qed
end
